theory Spec2Isabelle
  imports Complex_Main
begin

section \<open>ZMultiField: packing several bounded fields into one sorted-set score\<close>

text \<open>
  The development follows the Go package \<open>zmultifield\<close>: \<open>zmultifield.go\<close> (types,
  \<open>BitCount\<close>, \<open>MaxBin\<close>), \<open>multifield.go\<close> (\<open>newMultiField\<close>, \<open>defaultScore\<close>,
  \<open>setIndex\<close>) and \<open>multifieldset.go\<close> (\<open>New\<close>, \<open>scoresToZScore\<close>,
  \<open>extractFieldScore\<close>, \<open>IncreaseScore\<close> and the read paths).

  \<^item> \<open>*big.Int\<close> is \<open>int\<close>; \<open>Lsh\<close> is \<open>push_bit\<close>, \<open>Rsh\<close> is \<open>drop_bit\<close>, \<open>And\<close> is the
    two's complement \<open>and\<close> of HOL, which is what \<open>math/big\<close> implements. A
    \<open>big.Int\<close> has any size, but for the one that \<open>MaxBin\<close> cannot allocate.
  \<^item> \<open>uint64\<close> is \<open>nat\<close> with the wrap-around modulo \<open>2 ^ 64\<close> written out; \<open>uint\<close> and
    \<open>int\<close> are taken to be 64 bits wide.
  \<^item> \<open>float64\<close> is a datatype of the finite values (as reals), the two infinities and NaN.
\<close>

subsection \<open>Numbers\<close>

datatype float64 = Finite real | PosInf | NegInf | NaN

text \<open>\<open>math.IsInf(f, 1)\<close>\<close>

definition IsInfPos :: "float64 \<Rightarrow> bool" where
  "IsInfPos v = (v = PosInf)"

text \<open>The comparison \<open>n <= 0\<close> on a \<open>float64\<close>: false for NaN.\<close>

fun le_zero :: "float64 \<Rightarrow> bool" where
  "le_zero (Finite x) = (x \<le> 0)"
| "le_zero PosInf = False"
| "le_zero NegInf = True"
| "le_zero NaN = False"

text \<open>Go discards the fraction when it converts a floating-point number to an integer.\<close>

definition trunc :: "real \<Rightarrow> int" where
  "trunc x = (if 0 \<le> x then \<lfloor>x\<rfloor> else \<lceil>x\<rceil>)"

text \<open>
  \<open>uint64(v)\<close> and \<open>int64(v)\<close>. Where the target type cannot represent the truncated
  value (and for NaN and the infinities) the Go specification leaves the result to the
  implementation: the model leaves it unspecified, inside the range of the type.
\<close>

definition toUint64 :: "float64 \<Rightarrow> nat" where
  "toUint64 v =
     (case v of
        Finite x \<Rightarrow>
          (if 0 \<le> trunc x \<and> trunc x < 2 ^ 64 then nat (trunc x)
           else (undefined v :: nat) mod 2 ^ 64)
      | _ \<Rightarrow> (undefined v :: nat) mod 2 ^ 64)"

definition toInt64 :: "float64 \<Rightarrow> int" where
  "toInt64 v =
     (case v of
        Finite x \<Rightarrow>
          (if - (2 ^ 63) \<le> trunc x \<and> trunc x < 2 ^ 63 then trunc x
           else (undefined v :: int) mod 2 ^ 64 - 2 ^ 63)
      | _ \<Rightarrow> (undefined v :: int) mod 2 ^ 64 - 2 ^ 63)"

text \<open>The number of bits of a natural number, 0 for 0: \<open>bits.Len64\<close> and \<open>big.Int.BitLen\<close>.\<close>

fun bit_length :: "nat \<Rightarrow> nat" where
  "bit_length n = (if n = 0 then 0 else Suc (bit_length (n div 2)))"

declare bit_length.simps [simp del]

definition Len64 :: "nat \<Rightarrow> nat" where
  "Len64 x = bit_length x"

definition BitLen :: "int \<Rightarrow> nat" where
  "BitLen z = bit_length (nat \<bar>z\<bar>)"

text \<open>\<open>a - b\<close> on \<open>uint64\<close>\<close>

definition sub_u64 :: "nat \<Rightarrow> nat \<Rightarrow> nat" where
  "sub_u64 a b = (a + 2 ^ 64 - b mod 2 ^ 64) mod 2 ^ 64"

definition add_u64 :: "nat \<Rightarrow> nat \<Rightarrow> nat" where
  "add_u64 a b = (a + b) mod 2 ^ 64"

subsection \<open>Errors and panics\<close>

text \<open>
  The errors the package returns, and the two ways the Redis client fails. The last two
  are not errors that a function returns but run-time panics of Go, which end the call:
  an index out of range, and a slice that the runtime refuses to allocate.
\<close>

datatype error =
    NameRequired
  | FieldsRequired
  | ClientRequired
  | FieldNotFound string
  | UnknownUpdateType
  | ScoreOutOfRange int string
  | RedisNil
  | RedisError string
  | IndexPanic
  | AllocPanic

subsection \<open>zmultifield.go\<close>

type_synonym SortOrder = int

definition Ascending :: SortOrder where
  "Ascending = 1"

definition Descending :: SortOrder where
  "Descending = - 1"

type_synonym UpdateType = int

definition Incremental :: UpdateType where
  "Incremental = 1"

definition Replace :: UpdateType where
  "Replace = 2"

record Field =
  Name :: string
  Sort :: SortOrder
  MaxValue :: float64
  UpdateType :: UpdateType

definition BitCount :: "float64 \<Rightarrow> nat" where
  "BitCount n = (if le_zero n then 1 else Len64 (toUint64 n))"

text \<open>
  \<open>MaxBin\<close> shifts 1 by \<open>n\<close> bits. For that \<open>big.Int.Lsh\<close> makes a slice of \<open>n / 64 + 2\<close>
  words with room for 4 more, and the Go runtime panics (\<open>makeslice: len out of range\<close>)
  when a slice is to take more than \<open>2 ^ 48\<close> bytes, its limit on the 64-bit platforms. The
  other shifts of the package are by a \<open>shiftValue\<close>, a sum of the widths of fields that
  are in memory, and are not given this limit.
\<close>

definition MaxBin :: "nat \<Rightarrow> error + int" where
  "MaxBin n =
     (if n = 0 then Inr 0
      else if 2 ^ 48 < 8 * (n div 64 + 6) then Inl AllocPanic
      else Inr (push_bit n 1 - 1))"

subsection \<open>multifield.go\<close>

text \<open>
  \<open>multiField\<close> embeds \<open>Field\<close>. The field \<open>mask\<close> is called \<open>fmask\<close> here, since \<open>mask\<close>
  is a constant of HOL.
\<close>

record multiField = Field +
  bits :: nat
  position :: nat
  shiftValue :: nat
  fmask :: int
  isMain :: bool
  maxAbsolute :: int
  multiplier :: int

definition newMultiField :: "Field \<Rightarrow> error + multiField" where
  "newMultiField f =
     (let main = IsInfPos (MaxValue f);
          b = (if main then 53 else BitCount (MaxValue f))
      in case MaxBin b of
           Inl e \<Rightarrow> Inl e
         | Inr m \<Rightarrow>
             Inr \<lparr> Name = Name f, Sort = Sort f, MaxValue = MaxValue f,
                   UpdateType = UpdateType f,
                   bits = b, position = 0, shiftValue = 0, fmask = m, isMain = main,
                   maxAbsolute = (if main then 2 ^ 53 - 1 else m),
                   multiplier = (if Sort f = Descending then - 1 else 1) \<rparr>)"

definition defaultScore :: "multiField \<Rightarrow> int" where
  "defaultScore mf = (if Sort mf = Descending then maxAbsolute mf else 0)"

definition updateTypeName :: "multiField \<Rightarrow> string" where
  "updateTypeName mf =
     (if UpdateType mf = Incremental then ''INCREMENTAL''
      else if UpdateType mf = Replace then ''REPLACE''
      else ''UNKNOWN'')"

definition setIndex :: "multiField \<Rightarrow> nat \<Rightarrow> nat \<Rightarrow> error + multiField" where
  "setIndex mf pos sv =
     (let mf1 = mf\<lparr> position := pos, shiftValue := sv, fmask := push_bit sv (fmask mf) \<rparr>
      in if isMain mf1 then
           (case (if 53 < BitLen (fmask mf1)
                  then (case MaxBin 53 of
                          Inl e \<Rightarrow> Inl e
                        | Inr m \<Rightarrow> Inr (mf1\<lparr> fmask := push_bit sv m \<rparr>))
                  else Inr mf1) of
              Inl e \<Rightarrow> Inl e
            | Inr mf2 \<Rightarrow>
                (let b = sub_u64 53 (shiftValue mf2)
                 in case MaxBin b of
                      Inl e \<Rightarrow> Inl e
                    | Inr a \<Rightarrow> Inr (mf2\<lparr> bits := b, maxAbsolute := a \<rparr>)))
         else Inr mf1)"

subsection \<open>multifieldset.go\<close>

record 'c MultiFieldSetOptions =
  opt_Name :: string
  opt_Fields :: "Field list"
  opt_Client :: "'c option"

record 'c MultiFieldSet =
  mfields :: "multiField list"
  name :: string
  client :: 'c
  defaultZScore :: int

text \<open>
  The field \<open>fields\<close> of \<open>MultiFieldSet\<close> is called \<open>mfields\<close>: a record defines a constant
  \<open>fields\<close> of its own.
\<close>

text \<open>
  The loop of \<open>scoresToZScore\<close>: \<open>scores[i]\<close> is shifted by \<open>fields[i].shiftValue\<close> and
  added; reading \<open>fields[i]\<close> beyond the fields panics.
\<close>

fun scoresLoop :: "multiField list \<Rightarrow> int list \<Rightarrow> int \<Rightarrow> error + int" where
  "scoresLoop fs [] zscore = Inr zscore"
| "scoresLoop [] (score # rest) zscore = Inl IndexPanic"
| "scoresLoop (f # fs) (score # rest) zscore =
     scoresLoop fs rest (zscore + push_bit (shiftValue f) score)"

definition scoresToZScore :: "'c MultiFieldSet \<Rightarrow> int list \<Rightarrow> error + int" where
  "scoresToZScore mfs scores = scoresLoop (mfields mfs) scores 0"

text \<open>The first loop of \<open>New\<close>, over the fields in the order of their declaration.\<close>

fun newMultiFields :: "Field list \<Rightarrow> error + multiField list" where
  "newMultiFields [] = Inr []"
| "newMultiFields (f # rest) =
     (case newMultiField f of
        Inl e \<Rightarrow> Inl e
      | Inr mf \<Rightarrow>
          (case newMultiFields rest of
             Inl e \<Rightarrow> Inl e
           | Inr mfs \<Rightarrow> Inr (mf # mfs)))"

text \<open>
  The second loop of \<open>New\<close> runs from the last field to the first: the fields behind
  position \<open>i\<close> are indexed before field \<open>i\<close>, which takes their total width as its shift.
\<close>

fun setIndices :: "nat \<Rightarrow> multiField list \<Rightarrow> error + multiField list \<times> nat" where
  "setIndices i [] = Inr ([], 0)"
| "setIndices i (mf # rest) =
     (case setIndices (Suc i) rest of
        Inl e \<Rightarrow> Inl e
      | Inr (rest', totalShifts) \<Rightarrow>
          (case setIndex mf i totalShifts of
             Inl e \<Rightarrow> Inl e
           | Inr mf' \<Rightarrow> Inr (mf' # rest', add_u64 totalShifts (bits mf'))))"

definition New :: "'c MultiFieldSetOptions \<Rightarrow> error + 'c MultiFieldSet" where
  "New opts =
     (if opt_Name opts = [] then Inl NameRequired
      else if opt_Fields opts = [] then Inl FieldsRequired
      else case opt_Client opts of
        None \<Rightarrow> Inl ClientRequired
      | Some c \<Rightarrow>
          (case newMultiFields (opt_Fields opts) of
             Inl e \<Rightarrow> Inl e
           | Inr created \<Rightarrow>
               (case setIndices 0 created of
                  Inl e \<Rightarrow> Inl e
                | Inr (multiFields, totalShifts) \<Rightarrow>
                    (let mfs = \<lparr> mfields = multiFields, name = opt_Name opts, client = c,
                                 defaultZScore = 0 \<rparr>
                     in case scoresToZScore mfs (map defaultScore multiFields) of
                          Inl e \<Rightarrow> Inl e
                        | Inr z \<Rightarrow> Inr (mfs\<lparr> defaultZScore := z \<rparr>)))))"

definition GetName :: "'c MultiFieldSet \<Rightarrow> string" where
  "GetName mfs = name mfs"

text \<open>\<open>zscore\<close> is a pointer: \<open>None\<close> is \<open>nil\<close>.\<close>

definition extractFieldScore :: "multiField \<Rightarrow> int option \<Rightarrow> int" where
  "extractFieldScore field zscore =
     (case zscore of
        None \<Rightarrow> defaultScore field
      | Some z \<Rightarrow> drop_bit (shiftValue field) (and z (fmask field)))"

definition getFieldScores :: "'c MultiFieldSet \<Rightarrow> int option \<Rightarrow> int list" where
  "getFieldScores mfs zscore = map (\<lambda>field. extractFieldScore field zscore) (mfields mfs)"

definition GetFieldByName :: "'c MultiFieldSet \<Rightarrow> string \<Rightarrow> multiField option" where
  "GetFieldByName mfs n = find (\<lambda>field. Name field = n) (mfields mfs)"

subsection \<open>The Redis client\<close>

text \<open>
  Of the client the package uses \<open>ZScore\<close> and \<open>ZAdd\<close> (and read-only range queries). The
  model keeps the sorted sets as a map from key and member to score, and two switches that
  make a read or a write fail with a transport error.
\<close>

record redis =
  zsets :: "string \<Rightarrow> string \<rightharpoonup> float64"
  readFailure :: "string option"
  writeFailure :: "string option"

definition ZScore :: "redis \<Rightarrow> string \<Rightarrow> string \<Rightarrow> error + float64" where
  "ZScore r key member =
     (case readFailure r of
        Some e \<Rightarrow> Inl (RedisError e)
      | None \<Rightarrow> (case zsets r key member of None \<Rightarrow> Inl RedisNil | Some s \<Rightarrow> Inr s))"

definition ZAdd :: "redis \<Rightarrow> string \<Rightarrow> float64 \<Rightarrow> string \<Rightarrow> (error + unit) \<times> redis" where
  "ZAdd r key score member =
     (case writeFailure r of
        Some e \<Rightarrow> (Inl (RedisError e), r)
      | None \<Rightarrow> (Inr (), r\<lparr> zsets := (zsets r)(key := (zsets r key)(member \<mapsto> score)) \<rparr>))"

text \<open>
  \<open>big.Int.Int64\<close>: the low 64 bits of the magnitude read as an \<open>int64\<close>, negated for a
  negative number. \<open>float64(i)\<close> of an \<open>int64\<close> rounds to 53 significant bits, ties to even.
\<close>

definition signed64 :: "nat \<Rightarrow> int" where
  "signed64 n = (if n mod 2 ^ 64 < 2 ^ 63 then int (n mod 2 ^ 64) else int (n mod 2 ^ 64) - 2 ^ 64)"

definition Int64 :: "int \<Rightarrow> int" where
  "Int64 x =
     (let v = signed64 (nat \<bar>x\<bar>)
      in if x < 0 then signed64 (nat ((- v) mod 2 ^ 64)) else v)"

definition roundToEven53 :: "int \<Rightarrow> int" where
  "roundToEven53 i =
     (let m = nat \<bar>i\<bar>; n = bit_length m
      in if n \<le> 53 then i
         else (let e = n - 53; q = m div 2 ^ e; r = m mod 2 ^ e; h = 2 ^ (e - 1);
                   q' = (if h < r \<or> (r = h \<and> odd q) then q + 1 else q)
               in sgn i * int (q' * 2 ^ e)))"

definition fromInt64 :: "int \<Rightarrow> float64" where
  "fromInt64 i = Finite (of_int (roundToEven53 i))"

subsection \<open>IncreaseScore\<close>

text \<open>
  The body of the update loop, the same text on both paths of \<open>IncreaseScore\<close>: one entry
  \<open>(fieldName, incValue)\<close> of the map is applied to \<open>scores\<close>.
\<close>

definition checkRange :: "multiField \<Rightarrow> int list \<Rightarrow> error + int list" where
  "checkRange field scores =
     (let v = scores ! position field
      in if v < 0 \<or> maxAbsolute field < v then Inl (ScoreOutOfRange v (Name field))
         else Inr scores)"

definition updateOne :: "'c MultiFieldSet \<Rightarrow> int list \<Rightarrow> string \<times> float64 \<Rightarrow> error + int list" where
  "updateOne mfs scores u =
     (case GetFieldByName mfs (fst u) of
        None \<Rightarrow> Inl (FieldNotFound (fst u))
      | Some field \<Rightarrow>
          (let inc = toInt64 (snd u) * multiplier field; p = position field
           in if UpdateType field = Incremental then
                (if p < length scores then checkRange field (scores[p := scores ! p + inc])
                 else Inl IndexPanic)
              else if UpdateType field = Replace then
                (if p < length scores then checkRange field (scores[p := defaultScore field + inc])
                 else Inl IndexPanic)
              else Inl UnknownUpdateType))"

text \<open>
  The loop over the map \<open>fields\<close>. A Go map has each key once and is visited in an order
  the language does not fix: the list is the order of one run.
\<close>

fun updateScores :: "'c MultiFieldSet \<Rightarrow> int list \<Rightarrow> (string \<times> float64) list \<Rightarrow> error + int list" where
  "updateScores mfs scores [] = Inr scores"
| "updateScores mfs scores (u # rest) =
     (case updateOne mfs scores u of
        Inl e \<Rightarrow> Inl e
      | Inr scores' \<Rightarrow> updateScores mfs scores' rest)"

text \<open>What both paths do after the loop: pack, write to Redis, return the packed score.\<close>

definition storeScores :: "'c MultiFieldSet \<Rightarrow> redis \<Rightarrow> int list \<Rightarrow> string \<Rightarrow> (error + int) \<times> redis" where
  "storeScores mfs r scores member =
     (case scoresToZScore mfs scores of
        Inl e \<Rightarrow> (Inl e, r)
      | Inr finalZScore \<Rightarrow>
          (case ZAdd r (name mfs) (fromInt64 (Int64 finalZScore)) member of
             (Inl e, r') \<Rightarrow> (Inl e, r')
           | (Inr _, r') \<Rightarrow> (Inr finalZScore, r')))"

definition IncreaseScore ::
  "'c MultiFieldSet \<Rightarrow> redis \<Rightarrow> (string \<times> float64) list \<Rightarrow> string \<Rightarrow> (error + int) \<times> redis" where
  "IncreaseScore mfs r updates member =
     (case ZScore r (name mfs) member of
        Inl RedisNil \<Rightarrow>
          (case updateScores mfs (map defaultScore (mfields mfs)) updates of
             Inl e \<Rightarrow> (Inl e, r)
           | Inr scores \<Rightarrow> storeScores mfs r scores member)
      | Inl e \<Rightarrow> (Inl e, r)
      | Inr currentZScore \<Rightarrow>
          (case updateScores mfs (getFieldScores mfs (Some (toInt64 currentZScore))) updates of
             Inl e \<Rightarrow> (Inl e, r)
           | Inr scores \<Rightarrow> storeScores mfs r scores member))"

subsection \<open>Reading scores\<close>

definition zscoreToAllFieldScores :: "'c MultiFieldSet \<Rightarrow> int option \<Rightarrow> (string \<times> int) list" where
  "zscoreToAllFieldScores mfs zscore =
     map (\<lambda>field.
            (let fieldVal = extractFieldScore field zscore
             in (Name field,
                 if Sort field = Descending then maxAbsolute field - fieldVal else fieldVal)))
         (mfields mfs)"

definition GetScores :: "'c MultiFieldSet \<Rightarrow> redis \<Rightarrow> string \<Rightarrow> error + (string \<times> int) list" where
  "GetScores mfs r member =
     (case ZScore r (name mfs) member of
        Inl RedisNil \<Rightarrow> Inr (map (\<lambda>field. (Name field, defaultScore field)) (mfields mfs))
      | Inl e \<Rightarrow> Inl e
      | Inr zscoreStr \<Rightarrow> Inr (zscoreToAllFieldScores mfs (Some (toInt64 zscoreStr))))"

subsection \<open>Example codecs\<close>

text \<open>The leaderboard of the examples, reduced to its last two fields.\<close>

definition kills_field :: Field where
  "kills_field =
     \<lparr> Name = ''kills'', Sort = Descending, MaxValue = Finite 10000, UpdateType = Incremental \<rparr>"

definition deaths_field :: Field where
  "deaths_field =
     \<lparr> Name = ''deaths'', Sort = Ascending, MaxValue = Finite 10000, UpdateType = Incremental \<rparr>"

definition leaderboard_opts :: "unit MultiFieldSetOptions" where
  "leaderboard_opts =
     \<lparr> opt_Name = ''game:leaderboard'', opt_Fields = [kills_field, deaths_field],
       opt_Client = Some () \<rparr>"

text \<open>A field declared with \<open>math.Inf(1)\<close> as its maximum, between two bounded fields.\<close>

definition tier_field :: Field where
  "tier_field =
     \<lparr> Name = ''tier'', Sort = Ascending, MaxValue = Finite 3, UpdateType = Incremental \<rparr>"

definition main_field :: Field where
  "main_field =
     \<lparr> Name = ''total'', Sort = Ascending, MaxValue = PosInf, UpdateType = Incremental \<rparr>"

definition points_field :: Field where
  "points_field =
     \<lparr> Name = ''points'', Sort = Ascending, MaxValue = Finite 255, UpdateType = Incremental \<rparr>"

definition headroom_opts :: "unit MultiFieldSetOptions" where
  "headroom_opts =
     \<lparr> opt_Name = ''headroom'', opt_Fields = [tier_field, main_field, points_field],
       opt_Client = Some () \<rparr>"

text \<open>A field with a negative maximum and two fields of 41 bits each.\<close>

definition debt_field :: Field where
  "debt_field =
     \<lparr> Name = ''debt'', Sort = Ascending, MaxValue = Finite (- 5), UpdateType = Incremental \<rparr>"

definition bytes_in_field :: Field where
  "bytes_in_field =
     \<lparr> Name = ''in'', Sort = Descending, MaxValue = Finite 1099511627776,
       UpdateType = Incremental \<rparr>"

definition bytes_out_field :: Field where
  "bytes_out_field =
     \<lparr> Name = ''out'', Sort = Descending, MaxValue = Finite 1099511627776,
       UpdateType = Incremental \<rparr>"

definition unchecked_opts :: "unit MultiFieldSetOptions" where
  "unchecked_opts =
     \<lparr> opt_Name = ''traffic'', opt_Fields = [debt_field, bytes_in_field, bytes_out_field],
       opt_Client = Some () \<rparr>"


text \<open>Redis without a member, and with \<open>player1\<close> at the packed score of tier 1.\<close>

definition empty_redis :: redis where
  "empty_redis = \<lparr> zsets = (\<lambda>key. Map.empty), readFailure = None, writeFailure = None \<rparr>"

definition tiered_redis :: redis where
  "tiered_redis =
     \<lparr> zsets = (\<lambda>key. Map.empty)(''headroom'' := [''player1'' \<mapsto> Finite 9007199254740992]),
       readFailure = None, writeFailure = None \<rparr>"

text \<open>A field that is replaced, not incremented, and a member that already has a score.\<close>

definition rank_field :: Field where
  "rank_field =
     \<lparr> Name = ''rank'', Sort = Descending, MaxValue = Finite 100, UpdateType = Replace \<rparr>"

definition ranking_opts :: "unit MultiFieldSetOptions" where
  "ranking_opts =
     \<lparr> opt_Name = ''ranking'', opt_Fields = [rank_field, deaths_field], opt_Client = Some () \<rparr>"

definition ranked_redis :: redis where
  "ranked_redis =
     \<lparr> zsets = (\<lambda>key. Map.empty)(''ranking'' := [''player1'' \<mapsto> Finite 1638403]),
       readFailure = None, writeFailure = None \<rparr>"

section \<open>Properties\<close>

subsection \<open>Arithmetic of the field plan\<close>

lemma sub_u64_le: "s \<le> 53 \<Longrightarrow> sub_u64 53 s = 53 - s"
proof -
  assume "s \<le> 53"
  then have "(53::nat) + 2 ^ 64 - s mod 2 ^ 64 = (53 - s) + 2 ^ 64" by simp
  then show ?thesis unfolding sub_u64_def by (simp del: One_nat_def)
qed

lemma MaxBin_le_64: "n \<le> 64 \<Longrightarrow> MaxBin n = Inr (2 ^ n - 1)"
proof -
  assume "n \<le> 64"
  then have "n div 64 \<le> 1" by simp
  then have "\<not> (2::nat) ^ 48 < 8 * (n div 64 + 6)" by simp
  then show ?thesis by (simp add: MaxBin_def push_bit_eq_mult)
qed

lemma bit_length_le: "x < 2 ^ n \<Longrightarrow> bit_length x \<le> n"
proof (induction n arbitrary: x)
  case 0
  then show ?case by (simp add: bit_length.simps)
next
  case (Suc n)
  from Suc.prems have "x div 2 < 2 ^ n" by simp
  from Suc.IH [OF this] show ?case by (subst bit_length.simps) simp
qed

lemma toUint64_less: "toUint64 v < 2 ^ 64"
  by (cases v) (auto simp: toUint64_def)

lemma BitCount_le_64: "BitCount v \<le> 64"
  using bit_length_le [OF toUint64_less, of v] by (simp add: BitCount_def Len64_def)

lemma newMultiField_eq:
  "newMultiField f =
     Inr \<lparr> Name = Name f, Sort = Sort f, MaxValue = MaxValue f, UpdateType = UpdateType f,
           bits = (if MaxValue f = PosInf then 53 else BitCount (MaxValue f)),
           position = 0, shiftValue = 0,
           fmask = 2 ^ (if MaxValue f = PosInf then 53 else BitCount (MaxValue f)) - 1,
           isMain = (MaxValue f = PosInf),
           maxAbsolute = 2 ^ (if MaxValue f = PosInf then 53 else BitCount (MaxValue f)) - 1,
           multiplier = (if Sort f = Descending then - 1 else 1) \<rparr>"
  using BitCount_le_64 [of "MaxValue f"]
  by (simp add: newMultiField_def IsInfPos_def Let_def MaxBin_le_64)

lemma newMultiField_ok [simp]: "\<not> isl (newMultiField f)"
  by (simp add: newMultiField_eq)

lemma newMultiField_Field [simp]:
  "Name (projr (newMultiField f)) = Name f" "Sort (projr (newMultiField f)) = Sort f"
  "MaxValue (projr (newMultiField f)) = MaxValue f"
  "UpdateType (projr (newMultiField f)) = UpdateType f"
  "isMain (projr (newMultiField f)) = (MaxValue f = PosInf)"
  "multiplier (projr (newMultiField f)) = (if Sort f = Descending then - 1 else 1)"
  by (simp_all add: newMultiField_eq)

lemma newMultiField_main:
  "MaxValue f = PosInf \<Longrightarrow>
     isMain (projr (newMultiField f)) \<and> fmask (projr (newMultiField f)) = 2 ^ 53 - 1
       \<and> bits (projr (newMultiField f)) = 53"
  by (simp add: newMultiField_eq)

lemma newMultiField_bounded:
  "MaxValue f \<noteq> PosInf \<Longrightarrow>
     \<not> isMain (projr (newMultiField f))
       \<and> bits (projr (newMultiField f)) = BitCount (MaxValue f)
       \<and> fmask (projr (newMultiField f)) = 2 ^ bits (projr (newMultiField f)) - 1
       \<and> maxAbsolute (projr (newMultiField f)) = 2 ^ bits (projr (newMultiField f)) - 1"
  by (simp add: newMultiField_eq)

lemma newMultiField_le_zero:
  "le_zero (MaxValue f) \<Longrightarrow>
     \<not> isMain (projr (newMultiField f)) \<and> bits (projr (newMultiField f)) = 1
       \<and> maxAbsolute (projr (newMultiField f)) = 1"
  by (cases "MaxValue f") (auto simp: newMultiField_eq BitCount_def)

lemma newMultiFields_eq:
  "newMultiFields fs = Inr (map (\<lambda>f. projr (newMultiField f)) fs)"
  by (induction fs) (simp_all add: newMultiField_eq)

lemma setIndex_not_main:
  "\<not> isMain mf \<Longrightarrow>
     setIndex mf p s = Inr (mf\<lparr> position := p, shiftValue := s, fmask := push_bit s (fmask mf) \<rparr>)"
  by (simp add: setIndex_def Let_def)

lemma setIndex_main:
  assumes "isMain mf" and "fmask mf = 2 ^ 53 - 1" and "s \<le> 53"
  shows "setIndex mf p s =
     Inr (mf\<lparr> position := p, shiftValue := s, fmask := push_bit s (2 ^ 53 - 1),
              bits := 53 - s, maxAbsolute := 2 ^ (53 - s) - 1 \<rparr>)"
proof -
  have a: "MaxBin 53 = Inr (2 ^ 53 - 1)" by (rule MaxBin_le_64) simp
  have b: "MaxBin (53 - s) = Inr (2 ^ (53 - s) - 1)" by (rule MaxBin_le_64) simp
  show ?thesis
    using assms by (simp add: setIndex_def Let_def a b sub_u64_le)
qed

lemma setIndex_InrD:
  assumes "setIndex mf p s = Inr mf'"
  shows "Name mf' = Name mf" "Sort mf' = Sort mf" "MaxValue mf' = MaxValue mf"
    "UpdateType mf' = UpdateType mf" "isMain mf' = isMain mf" "multiplier mf' = multiplier mf"
    "position mf' = p" "shiftValue mf' = s"
  using assms
  by (auto simp: setIndex_def Let_def split: if_splits sum.splits)

lemmas run_defs =
  IncreaseScore_def ZScore_def ZAdd_def updateOne_def GetFieldByName_def checkRange_def
  defaultScore_def storeScores_def scoresToZScore_def fromInt64_def Int64_def signed64_def
  roundToEven53_def getFieldScores_def extractFieldScore_def GetScores_def
  zscoreToAllFieldScores_def

lemmas eval_defs =
  setIndex_def newMultiField_def IsInfPos_def MaxBin_def BitLen_def sub_u64_def add_u64_def
  Ascending_def Descending_def Incremental_def Replace_def BitCount_def Len64_def toUint64_def
  toInt64_def trunc_def bit_length.simps Let_def

text \<open>
  C3, first half. For a field declared with an infinite maximum that is given a shift \<open>s\<close>
  between 1 and 53, neither \<open>newMultiField\<close> nor \<open>setIndex\<close> panics, and \<open>setIndex\<close> sets the
  width to \<open>53 - s\<close> and the largest value to \<open>2 ^ (53 - s) - 1\<close>, as the claim says. The
  mask is not rebuilt from the truncated width: it stays \<open>(2 ^ 53 - 1) << s\<close>, which selects
  the bits \<open>s\<close> to \<open>s + 52\<close>, and differs from the mask \<open>(2 ^ (53 - s) - 1) << s\<close> of the
  claim.
\<close>

theorem C3_setIndex_main_keeps_wide_mask:
  assumes "MaxValue f = PosInf" and "0 < s" and "s \<le> 53"
  shows "\<not> isl (newMultiField f) \<and> \<not> isl (setIndex (projr (newMultiField f)) pos s)
       \<and> bits (projr (setIndex (projr (newMultiField f)) pos s)) = 53 - s
       \<and> maxAbsolute (projr (setIndex (projr (newMultiField f)) pos s)) = 2 ^ (53 - s) - 1
       \<and> fmask (projr (setIndex (projr (newMultiField f)) pos s)) = push_bit s (2 ^ 53 - 1)
       \<and> fmask (projr (setIndex (projr (newMultiField f)) pos s)) \<noteq> push_bit s (2 ^ (53 - s) - 1)"
proof -
  let ?mf = "projr (newMultiField f)"
  from newMultiField_main [OF assms(1)] have m: "isMain ?mf" "fmask ?mf = 2 ^ 53 - 1" by simp_all
  note e = setIndex_main [OF m assms(3), of pos]
  have "(2::int) ^ (53 - s) < 2 ^ 53"
    using assms(2,3) by (intro power_strict_increasing) auto
  then have "(2::int) ^ 53 - 1 \<noteq> 2 ^ (53 - s) - 1" by simp
  then have n: "push_bit s ((2::int) ^ 53 - 1) \<noteq> push_bit s (2 ^ (53 - s) - 1)"
    by (simp add: push_bit_eq_mult)
  from e n show ?thesis by simp
qed

text \<open>
  At shift 8: width 45, largest value \<open>2 ^ 45 - 1\<close>, mask \<open>2 ^ 61 - 2 ^ 8\<close>.
\<close>

theorem C3_setIndex_main_witness:
  "\<not> isl (setIndex (projr (newMultiField main_field)) 0 8)
     \<and> bits (projr (setIndex (projr (newMultiField main_field)) 0 8)) = 45
     \<and> maxAbsolute (projr (setIndex (projr (newMultiField main_field)) 0 8)) = 35184372088831
     \<and> fmask (projr (setIndex (projr (newMultiField main_field)) 0 8)) = 2305843009213693696
     \<and> fmask (projr (setIndex (projr (newMultiField main_field)) 0 8)) \<noteq> 9007199254740736"
  using C3_setIndex_main_keeps_wide_mask [of main_field 8 0]
  by (simp add: main_field_def)

subsection \<open>Construction\<close>




lemma setIndices_Cons_InrD:
  assumes "setIndices i (mf # rest) = Inr (fs', t)"
  shows "\<exists>rest' t' mf'. setIndices (Suc i) rest = Inr (rest', t') \<and> setIndex mf i t' = Inr mf'
     \<and> fs' = mf' # rest' \<and> t = add_u64 t' (bits mf')"
  using assms by (auto split: sum.splits prod.splits)

lemma setIndices_length: "setIndices i fs = Inr (fs', t) \<Longrightarrow> length fs' = length fs"
proof (induction fs arbitrary: i fs' t)
  case Nil
  then show ?case by simp
next
  case (Cons mf rest)
  from setIndices_Cons_InrD [OF Cons.prems] Cons.IH show ?case by auto
qed

text \<open>Field \<open>k\<close> is indexed with its place in the list and the width of the fields behind it.\<close>

lemma setIndices_nth:
  "setIndices i fs = Inr (fs', t) \<Longrightarrow> k < length fs \<Longrightarrow>
   \<exists>r tk. setIndices (Suc (i + k)) (drop (Suc k) fs) = Inr (r, tk)
     \<and> setIndex (fs ! k) (i + k) tk = Inr (fs' ! k)"
proof (induction fs arbitrary: i k fs' t)
  case Nil
  then show ?case by simp
next
  case (Cons mf rest)
  from setIndices_Cons_InrD [OF Cons.prems(1)] obtain rest' t' mf' where
    o: "setIndices (Suc i) rest = Inr (rest', t')" "setIndex mf i t' = Inr mf'"
      "fs' = mf' # rest'" by blast
  show ?case
  proof (cases k)
    case 0
    with o show ?thesis by simp
  next
    case (Suc k')
    with Cons.prems have "k' < length rest" by simp
    from Cons.IH [OF o(1) this] Suc o(3) show ?thesis by simp
  qed
qed

lemma scoresLoop_ok:
  "length ss \<le> length fs \<Longrightarrow> \<exists>z'. scoresLoop fs ss z = Inr z'"
  by (induction fs ss z rule: scoresLoop.induct) simp_all

lemma New_ok:
  assumes "opt_Name opts \<noteq> []" "opt_Fields opts \<noteq> []" "opt_Client opts = Some c"
    and "setIndices 0 (map (\<lambda>f. projr (newMultiField f)) (opt_Fields opts)) = Inr (fs, t)"
  shows "\<exists>z. New opts = Inr \<lparr> mfields = fs, name = opt_Name opts, client = c,
            defaultZScore = z \<rparr>"
proof -
  obtain z where "scoresLoop fs (map defaultScore fs) 0 = Inr z"
    using scoresLoop_ok [of "map defaultScore fs" fs 0] by auto
  then show ?thesis using assms by (simp add: New_def scoresToZScore_def newMultiFields_eq)
qed

lemma New_fields:
  assumes "New opts = Inr mfs"
  shows "\<exists>t. setIndices 0 (map (\<lambda>f. projr (newMultiField f)) (opt_Fields opts)) =
            Inr (mfields mfs, t)"
    and "name mfs = opt_Name opts" and "opt_Fields opts \<noteq> []"
    and "length (mfields mfs) = length (opt_Fields opts)"
proof -
  from assms have a: "opt_Name opts \<noteq> []" "opt_Fields opts \<noteq> []"
    by (auto simp: New_def split: if_splits)
  from assms obtain c where c: "opt_Client opts = Some c"
    by (cases "opt_Client opts") (auto simp: New_def split: if_splits)
  obtain fs t where s: "setIndices 0 (map (\<lambda>f. projr (newMultiField f)) (opt_Fields opts)) =
      Inr (fs, t)"
  proof (cases "setIndices 0 (map (\<lambda>f. projr (newMultiField f)) (opt_Fields opts))")
    case (Inl e)
    with assms a c show ?thesis by (simp add: New_def newMultiFields_eq)
  next
    case (Inr p)
    with that show ?thesis by (cases p) auto
  qed
  from New_ok [OF a c s] assms have m: "mfields mfs = fs" "name mfs = opt_Name opts" by auto
  from m s show "\<exists>t. setIndices 0 (map (\<lambda>f. projr (newMultiField f)) (opt_Fields opts)) =
            Inr (mfields mfs, t)" by auto
  from m show "name mfs = opt_Name opts" by simp
  from a show "opt_Fields opts \<noteq> []" by simp
  from m setIndices_length [OF s] show "length (mfields mfs) = length (opt_Fields opts)" by simp
qed


lemma New_leaderboard:
  "New leaderboard_opts =
     Inr \<lparr> mfields =
             [\<lparr> Name = ''kills'', Sort = - 1, MaxValue = Finite 10000, UpdateType = 1,
                 bits = 14, position = 0, shiftValue = 14, fmask = 268419072, isMain = False,
                 maxAbsolute = 16383, multiplier = - 1 \<rparr>,
              \<lparr> Name = ''deaths'', Sort = 1, MaxValue = Finite 10000, UpdateType = 1,
                 bits = 14, position = 1, shiftValue = 0, fmask = 16383, isMain = False,
                 maxAbsolute = 16383, multiplier = 1 \<rparr>],
           name = ''game:leaderboard'', client = (), defaultZScore = 268419072 \<rparr>"
  by (simp add: New_def leaderboard_opts_def kills_field_def deaths_field_def eval_defs
      scoresToZScore_def defaultScore_def)

text \<open>Bounded fields are indexed without a panic, and their widths add up.\<close>

lemma setIndices_bounded:
  "\<forall>mf \<in> set fs. \<not> isMain mf \<Longrightarrow>
   \<exists>fs'. setIndices i fs = Inr (fs', sum_list (map bits fs) mod 2 ^ 64)"
proof (induction fs arbitrary: i)
  case Nil
  then show ?case by simp
next
  case (Cons mf rest)
  from Cons.IH [of "Suc i"] Cons.prems obtain rest' where
    r: "setIndices (Suc i) rest = Inr (rest', sum_list (map bits rest) mod 2 ^ 64)" by auto
  from Cons.prems have "\<not> isMain mf" by simp
  note s = setIndex_not_main [OF this]
  have "(sum_list (map bits rest) mod 2 ^ 64 + bits mf) mod 2 ^ 64 =
      (bits mf + sum_list (map bits rest)) mod 2 ^ 64"
    by (metis mod_add_left_eq add.commute)
  with r s show ?case by (simp add: add_u64_def)
qed

text \<open>
  The loop of \<open>New\<close> does not panic when every unbounded field has only bounded fields
  behind it, of at most 53 bits in total.
\<close>

lemma setIndices_ok:
  "\<forall>k < length fs. isMain (fs ! k) \<longrightarrow>
       fmask (fs ! k) = 2 ^ 53 - 1 \<and> (\<forall>g \<in> set (drop (Suc k) fs). \<not> isMain g)
     \<and> sum_list (map bits (drop (Suc k) fs)) \<le> 53 \<Longrightarrow>
   \<not> isl (setIndices i fs)"
proof (induction fs arbitrary: i)
  case Nil
  then show ?case by simp
next
  case (Cons mf rest)
  have "\<forall>k < length rest. isMain (rest ! k) \<longrightarrow>
       fmask (rest ! k) = 2 ^ 53 - 1 \<and> (\<forall>g \<in> set (drop (Suc k) rest). \<not> isMain g)
     \<and> sum_list (map bits (drop (Suc k) rest)) \<le> 53"
  proof (intro allI impI)
    fix k assume "k < length rest" "isMain (rest ! k)"
    with Cons.prems [rule_format, of "Suc k"]
    show "fmask (rest ! k) = 2 ^ 53 - 1 \<and> (\<forall>g \<in> set (drop (Suc k) rest). \<not> isMain g)
     \<and> sum_list (map bits (drop (Suc k) rest)) \<le> 53" by simp
  qed
  from Cons.IH [OF this, of "Suc i"] obtain rest' t where
    r: "setIndices (Suc i) rest = Inr (rest', t)"
    by (cases "setIndices (Suc i) rest") auto
  show ?case
  proof (cases "isMain mf")
    case True
    with Cons.prems [rule_format, of 0]
    have m: "fmask mf = 2 ^ 53 - 1" "\<forall>g \<in> set rest. \<not> isMain g" "sum_list (map bits rest) \<le> 53"
      by simp_all
    from setIndices_bounded [OF m(2), of "Suc i"] r m(3) have "t \<le> 53" by simp
    from setIndex_main [OF True m(1) this, of i] r show ?thesis by simp
  next
    case False
    from setIndex_not_main [OF this, of i t] r show ?thesis by simp
  qed
qed

lemma New_succeeds:
  assumes "opt_Name opts \<noteq> []" "opt_Fields opts \<noteq> []" "opt_Client opts \<noteq> None"
    and "\<forall>k < length (opt_Fields opts). MaxValue (opt_Fields opts ! k) = PosInf \<longrightarrow>
           (\<forall>g \<in> set (drop (Suc k) (opt_Fields opts)). MaxValue g \<noteq> PosInf)
         \<and> sum_list (map (\<lambda>g. BitCount (MaxValue g)) (drop (Suc k) (opt_Fields opts))) \<le> 53"
  shows "\<not> isl (New opts)"
proof -
  let ?F = "opt_Fields opts"
  let ?fs = "map (\<lambda>f. projr (newMultiField f)) ?F"
  have "\<forall>k < length ?fs. isMain (?fs ! k) \<longrightarrow>
       fmask (?fs ! k) = 2 ^ 53 - 1 \<and> (\<forall>g \<in> set (drop (Suc k) ?fs). \<not> isMain g)
     \<and> sum_list (map bits (drop (Suc k) ?fs)) \<le> 53"
  proof (intro allI impI)
    fix k assume k: "k < length ?fs" and m: "isMain (?fs ! k)"
    from k m have p: "MaxValue (?F ! k) = PosInf" by simp
    with assms(4) k have b: "\<forall>g \<in> set (drop (Suc k) ?F). MaxValue g \<noteq> PosInf"
      and w: "sum_list (map (\<lambda>g. BitCount (MaxValue g)) (drop (Suc k) ?F)) \<le> 53" by simp_all
    have d: "drop (Suc k) ?fs = map (\<lambda>f. projr (newMultiField f)) (drop (Suc k) ?F)"
      by (simp add: drop_map)
    from b have "map bits (drop (Suc k) ?fs) = map (\<lambda>g. BitCount (MaxValue g)) (drop (Suc k) ?F)"
      unfolding d by (auto simp: newMultiField_bounded)
    with w have "sum_list (map bits (drop (Suc k) ?fs)) \<le> 53" by simp
    moreover from b have "\<forall>g \<in> set (drop (Suc k) ?fs). \<not> isMain g"
      unfolding d by auto
    moreover from p k have "fmask (?fs ! k) = 2 ^ 53 - 1" by (simp add: newMultiField_main)
    ultimately show "fmask (?fs ! k) = 2 ^ 53 - 1 \<and> (\<forall>g \<in> set (drop (Suc k) ?fs). \<not> isMain g)
     \<and> sum_list (map bits (drop (Suc k) ?fs)) \<le> 53" by simp
  qed
  from setIndices_ok [OF this, of 0] obtain fs t where "setIndices 0 ?fs = Inr (fs, t)"
    by (cases "setIndices 0 ?fs") auto
  moreover from assms(3) obtain c where "opt_Client opts = Some c" by auto
  ultimately show ?thesis using New_ok [OF assms(1,2)] by fastforce
qed




text \<open>
  C5 as stated fails: in the two-field leaderboard the last-declared field \<open>deaths\<close>, which
  has shift 0 and is the least significant, has position 1, and position 0 belongs to the
  first-declared, most significant field \<open>kills\<close>.
\<close>

theorem C5_position_counterexample:
  "Name (mfields (projr (New leaderboard_opts)) ! 1) = ''deaths''
     \<and> shiftValue (mfields (projr (New leaderboard_opts)) ! 1) = 0
     \<and> position (mfields (projr (New leaderboard_opts)) ! 1) = 1
     \<and> Name (mfields (projr (New leaderboard_opts)) ! 0) = ''kills''
     \<and> shiftValue (mfields (projr (New leaderboard_opts)) ! 0) = 14
     \<and> position (mfields (projr (New leaderboard_opts)) ! 0) = 0"
  by (simp add: New_leaderboard)

lemma New_nth:
  assumes "New opts = Inr mfs" and "k < length (opt_Fields opts)"
  shows "\<exists>r tk. setIndices (Suc k)
             (drop (Suc k) (map (\<lambda>f. projr (newMultiField f)) (opt_Fields opts))) = Inr (r, tk)
     \<and> setIndex (projr (newMultiField (opt_Fields opts ! k))) k tk = Inr (mfields mfs ! k)"
proof -
  from New_fields(1) [OF assms(1)] obtain t where
    "setIndices 0 (map (\<lambda>f. projr (newMultiField f)) (opt_Fields opts)) = Inr (mfields mfs, t)"
    by blast
  from setIndices_nth [OF this, of k] assms(2) show ?thesis by simp
qed

text \<open>
  C5, amended. After construction the position of every field is its 0-based index in
  declaration order, which is the order of \<open>mfs.fields\<close>: position 0 is the first-declared
  field; the last-declared field has the highest position and shift 0.
\<close>

theorem C5_position_is_declaration_index:
  assumes "New opts = Inr mfs"
  shows "length (mfields mfs) = length (opt_Fields opts)
       \<and> (\<forall>k < length (opt_Fields opts).
            position (mfields mfs ! k) = k \<and> Name (mfields mfs ! k) = Name (opt_Fields opts ! k))
       \<and> shiftValue (last (mfields mfs)) = 0
       \<and> position (last (mfields mfs)) = length (opt_Fields opts) - 1"
proof -
  let ?n = "length (opt_Fields opts)"
  note ne = New_fields(3) [OF assms]
  note l = New_fields(4) [OF assms]
  have n: "position (mfields mfs ! k) = k \<and> Name (mfields mfs ! k) = Name (opt_Fields opts ! k)"
    if "k < ?n" for k
    using New_nth [OF assms that] by (auto dest: setIndex_InrD)
  from ne have lt: "?n - 1 < ?n" by (cases "opt_Fields opts") auto
  have la: "last (mfields mfs) = mfields mfs ! (?n - 1)"
    using ne l by (metis last_conv_nth length_0_conv)
  from New_nth [OF assms lt] lt
  have "\<exists>mf. setIndex mf (?n - 1) 0 = Inr (mfields mfs ! (?n - 1))" by auto
  then have s: "shiftValue (mfields mfs ! (?n - 1)) = 0" by (auto dest: setIndex_InrD)
  from l n s la lt show ?thesis by simp
qed

text \<open>
  The two positions of the leaderboard.
\<close>

theorem C5_position_witness:
  "position (mfields (projr (New leaderboard_opts)) ! 0) = 0
     \<and> position (mfields (projr (New leaderboard_opts)) ! 1) = 1
     \<and> Name (mfields (projr (New leaderboard_opts)) ! 1) = Name (opt_Fields leaderboard_opts ! 1)
     \<and> shiftValue (last (mfields (projr (New leaderboard_opts)))) = 0"
proof -
  have "New leaderboard_opts = Inr (projr (New leaderboard_opts))"
    by (simp add: New_leaderboard)
  from C5_position_is_declaration_index [OF this]
  show ?thesis by (simp add: leaderboard_opts_def)
qed

text \<open>
  C2 as stated fails: \<open>New\<close> accepts a specification whose first field has the maximum
  \<open>-5\<close> and whose fixed-width fields take 1 + 41 + 41 = 83 bits.
\<close>

theorem C2_no_validation_counterexample:
  "MaxValue (opt_Fields unchecked_opts ! 0) = Finite (- 5)
     \<and> \<not> isl (New unchecked_opts)
     \<and> map isMain (mfields (projr (New unchecked_opts))) = [False, False, False]
     \<and> map bits (mfields (projr (New unchecked_opts))) = [1, 41, 41]
     \<and> map shiftValue (mfields (projr (New unchecked_opts))) = [82, 41, 0]"
  by (simp add: New_def unchecked_opts_def debt_field_def bytes_in_field_def
      bytes_out_field_def eval_defs scoresToZScore_def defaultScore_def)

text \<open>
  C2, amended. \<open>New\<close> has no check of a maximum or of a width. Given a name, a field and a
  client, and no unbounded field with an unbounded field or more than 53 bits declared
  after it, \<open>New\<close> returns a \<open>MultiFieldSet\<close> with one plan for each field: a bounded field
  gets the width \<open>BitCount\<close> of its maximum, whatever the widths add up to, and a field whose
  maximum is zero or negative is planned as a field of one bit.
\<close>

theorem C2_New_accepts_bad_fields:
  assumes "opt_Name opts \<noteq> []" "opt_Fields opts \<noteq> []" "opt_Client opts \<noteq> None"
    and "\<forall>k < length (opt_Fields opts). MaxValue (opt_Fields opts ! k) = PosInf \<longrightarrow>
           (\<forall>g \<in> set (drop (Suc k) (opt_Fields opts)). MaxValue g \<noteq> PosInf)
         \<and> sum_list (map (\<lambda>g. BitCount (MaxValue g)) (drop (Suc k) (opt_Fields opts))) \<le> 53"
  shows "\<exists>mfs. New opts = Inr mfs \<and> length (mfields mfs) = length (opt_Fields opts)
     \<and> (\<forall>k < length (opt_Fields opts).
           (MaxValue (opt_Fields opts ! k) \<noteq> PosInf \<longrightarrow>
              bits (mfields mfs ! k) = BitCount (MaxValue (opt_Fields opts ! k))
            \<and> maxAbsolute (mfields mfs ! k) = 2 ^ bits (mfields mfs ! k) - 1)
         \<and> (le_zero (MaxValue (opt_Fields opts ! k)) \<longrightarrow>
              bits (mfields mfs ! k) = 1 \<and> maxAbsolute (mfields mfs ! k) = 1))"
proof -
  from New_succeeds [OF assms] obtain mfs where m: "New opts = Inr mfs"
    by (cases "New opts") auto
  have b: "bits (mfields mfs ! k) = BitCount (MaxValue (opt_Fields opts ! k))
            \<and> maxAbsolute (mfields mfs ! k) = 2 ^ bits (mfields mfs ! k) - 1"
    if k: "k < length (opt_Fields opts)" and z: "MaxValue (opt_Fields opts ! k) \<noteq> PosInf" for k
  proof -
    from New_nth [OF m k] obtain tk where
      s: "setIndex (projr (newMultiField (opt_Fields opts ! k))) k tk = Inr (mfields mfs ! k)"
      by blast
    note nb = newMultiField_bounded [OF z]
    from nb have "\<not> isMain (projr (newMultiField (opt_Fields opts ! k)))" by simp
    from setIndex_not_main [OF this, of k tk] s nb show ?thesis by auto
  qed
  have o: "bits (mfields mfs ! k) = 1 \<and> maxAbsolute (mfields mfs ! k) = 1"
    if k: "k < length (opt_Fields opts)" and z: "le_zero (MaxValue (opt_Fields opts ! k))" for k
  proof -
    from z have "MaxValue (opt_Fields opts ! k) \<noteq> PosInf" by auto
    from b [OF k this] z show ?thesis by (simp add: BitCount_def)
  qed
  from m b o New_fields(4) [OF m] show ?thesis by blast
qed

text \<open>
  The specification of the counterexample: one bit for the maximum \<open>-5\<close>, and the second
  field at its full width.
\<close>

theorem C2_New_accepts_witness:
  "\<not> isl (New unchecked_opts) \<and> bits (mfields (projr (New unchecked_opts)) ! 0) = 1
     \<and> maxAbsolute (mfields (projr (New unchecked_opts)) ! 0) = 1
     \<and> bits (mfields (projr (New unchecked_opts)) ! 1) = BitCount (Finite 1099511627776)"
proof -
  have a: "opt_Name unchecked_opts \<noteq> []" "opt_Fields unchecked_opts \<noteq> []"
    "opt_Client unchecked_opts \<noteq> None"
    by (simp_all add: unchecked_opts_def)
  have h: "\<forall>k < length (opt_Fields unchecked_opts).
            MaxValue (opt_Fields unchecked_opts ! k) = PosInf \<longrightarrow>
              (\<forall>g \<in> set (drop (Suc k) (opt_Fields unchecked_opts)). MaxValue g \<noteq> PosInf)
            \<and> sum_list (map (\<lambda>g. BitCount (MaxValue g))
                 (drop (Suc k) (opt_Fields unchecked_opts))) \<le> 53"
    by (simp add: unchecked_opts_def debt_field_def bytes_in_field_def bytes_out_field_def
        less_Suc_eq all_conj_distrib)
  from C2_New_accepts_bad_fields [OF a h] obtain mfs where m: "New unchecked_opts = Inr mfs"
    and b: "\<forall>k < length (opt_Fields unchecked_opts).
           (MaxValue (opt_Fields unchecked_opts ! k) \<noteq> PosInf \<longrightarrow>
              bits (mfields mfs ! k) = BitCount (MaxValue (opt_Fields unchecked_opts ! k))
            \<and> maxAbsolute (mfields mfs ! k) = 2 ^ bits (mfields mfs ! k) - 1)
         \<and> (le_zero (MaxValue (opt_Fields unchecked_opts ! k)) \<longrightarrow>
              bits (mfields mfs ! k) = 1 \<and> maxAbsolute (mfields mfs ! k) = 1)" by blast
  have "0 < length (opt_Fields unchecked_opts)"
    "le_zero (MaxValue (opt_Fields unchecked_opts ! 0))"
    "1 < length (opt_Fields unchecked_opts)"
    "MaxValue (opt_Fields unchecked_opts ! 1) = Finite 1099511627776"
    by (simp_all add: unchecked_opts_def debt_field_def bytes_in_field_def)
  with b have "bits (mfields mfs ! 0) = 1 \<and> maxAbsolute (mfields mfs ! 0) = 1
      \<and> bits (mfields mfs ! 1) = BitCount (Finite 1099511627776)"
    by (metis float64.distinct(1))
  with m show ?thesis by simp
qed

subsection \<open>The leaderboard scenario\<close>

lemma leaderboard_first_update:
  "IncreaseScore (projr (New leaderboard_opts)) empty_redis
       [(''kills'', Finite 5), (''deaths'', Finite 2)] ''player1'' =
     (Inr 268337154,
      \<lparr> zsets = (\<lambda>key. Map.empty)(''game:leaderboard'' := [''player1'' \<mapsto> Finite 268337154]),
        readFailure = None, writeFailure = None \<rparr>)"
  by (simp add: New_leaderboard run_defs empty_redis_def eval_defs)

text \<open>
  C7. Of the fields \<open>kills\<close> (descending) and \<open>deaths\<close> (ascending), both with maximum 10000
  and declared in this order, \<open>deaths\<close> gets 14 bits at shift 0 and \<open>kills\<close> 14 bits at shift 14.
  For a member that Redis does not have, the update \<open>kills +5, deaths +2\<close>, in either order
  of the map, returns the score whose packed fields are \<open>maxAbsolute - 5 = 16378\<close> for
  \<open>kills\<close> and 2 for \<open>deaths\<close>, and reading the member back gives kills 5 and deaths 2.
\<close>

theorem C7_leaderboard_scenario:
  "\<not> isl (New leaderboard_opts)
     \<and> map (\<lambda>f. (Name f, bits f, shiftValue f)) (mfields (projr (New leaderboard_opts))) =
         [(''kills'', 14, 14), (''deaths'', 14, 0)]
     \<and> maxAbsolute (mfields (projr (New leaderboard_opts)) ! 0) = 16383
     \<and> fst (IncreaseScore (projr (New leaderboard_opts)) empty_redis
              [(''kills'', Finite 5), (''deaths'', Finite 2)] ''player1'') = Inr 268337154
     \<and> fst (IncreaseScore (projr (New leaderboard_opts)) empty_redis
              [(''deaths'', Finite 2), (''kills'', Finite 5)] ''player1'') = Inr 268337154
     \<and> getFieldScores (projr (New leaderboard_opts)) (Some 268337154) = [16383 - 5, 2]
     \<and> zscoreToAllFieldScores (projr (New leaderboard_opts)) (Some 268337154) =
         [(''kills'', 5), (''deaths'', 2)]
     \<and> GetScores (projr (New leaderboard_opts))
          (snd (IncreaseScore (projr (New leaderboard_opts)) empty_redis
                 [(''kills'', Finite 5), (''deaths'', Finite 2)] ''player1'')) ''player1'' =
         Inr [(''kills'', 5), (''deaths'', 2)]"
proof -
  have a: "\<not> isl (New leaderboard_opts)"
    "map (\<lambda>f. (Name f, bits f, shiftValue f)) (mfields (projr (New leaderboard_opts))) =
         [(''kills'', 14, 14), (''deaths'', 14, 0)]"
    "maxAbsolute (mfields (projr (New leaderboard_opts)) ! 0) = 16383"
    by (simp_all add: New_leaderboard)
  have b: "fst (IncreaseScore (projr (New leaderboard_opts)) empty_redis
              [(''kills'', Finite 5), (''deaths'', Finite 2)] ''player1'') = Inr 268337154"
    by (simp add: leaderboard_first_update)
  have c: "fst (IncreaseScore (projr (New leaderboard_opts)) empty_redis
              [(''deaths'', Finite 2), (''kills'', Finite 5)] ''player1'') = Inr 268337154"
    by (simp add: New_leaderboard run_defs empty_redis_def eval_defs)
  have d: "getFieldScores (projr (New leaderboard_opts)) (Some 268337154) = [16383 - 5, 2]"
    "zscoreToAllFieldScores (projr (New leaderboard_opts)) (Some 268337154) =
         [(''kills'', 5), (''deaths'', 2)]"
    by (simp_all add: New_leaderboard run_defs eval_defs)
  have e: "GetScores (projr (New leaderboard_opts))
          (snd (IncreaseScore (projr (New leaderboard_opts)) empty_redis
                 [(''kills'', Finite 5), (''deaths'', Finite 2)] ''player1'')) ''player1'' =
         Inr [(''kills'', 5), (''deaths'', 2)]"
    by (simp add: leaderboard_first_update) (simp add: New_leaderboard run_defs eval_defs)
  from a b c d e show ?thesis by blast
qed

subsection \<open>An unbounded field below another field\<close>

lemma New_headroom:
  "New headroom_opts =
     Inr \<lparr> mfields =
             [\<lparr> Name = ''tier'', Sort = 1, MaxValue = Finite 3, UpdateType = 1,
                 bits = 2, position = 0, shiftValue = 53, fmask = 27021597764222976,
                 isMain = False, maxAbsolute = 3, multiplier = 1 \<rparr>,
              \<lparr> Name = ''total'', Sort = 1, MaxValue = PosInf, UpdateType = 1,
                 bits = 45, position = 1, shiftValue = 8, fmask = 2305843009213693696,
                 isMain = True, maxAbsolute = 35184372088831, multiplier = 1 \<rparr>,
              \<lparr> Name = ''points'', Sort = 1, MaxValue = Finite 255, UpdateType = 1,
                 bits = 8, position = 2, shiftValue = 0, fmask = 255, isMain = False,
                 maxAbsolute = 255, multiplier = 1 \<rparr>],
           name = ''headroom'', client = (), defaultZScore = 0 \<rparr>"
  by (simp add: New_def headroom_opts_def tier_field_def main_field_def points_field_def
      eval_defs scoresToZScore_def defaultScore_def)

text \<open>
  C1 on the code. The fields \<open>tier\<close> (maximum 3), \<open>total\<close> (unbounded) and \<open>points\<close>
  (maximum 255) get the largest values 3, \<open>2 ^ 45 - 1\<close> and 255. The vector \<open>[1, 0, 0]\<close> is
  within them and packs to \<open>2 ^ 53\<close>; unpacking gives \<open>[1, 2 ^ 45, 0]\<close>: the mask of
  \<open>total\<close>, 53 bits wide at shift 8, reads the slot of \<open>tier\<close> as well.
\<close>

theorem C1_round_trip_fails_under_wide_mask:
  "\<not> isl (New headroom_opts)
     \<and> map maxAbsolute (mfields (projr (New headroom_opts))) = [3, 35184372088831, 255]
     \<and> scoresToZScore (projr (New headroom_opts)) [1, 0, 0] = Inr 9007199254740992
     \<and> getFieldScores (projr (New headroom_opts)) (Some 9007199254740992) =
         [1, 35184372088832, 0]"
  by (simp add: New_headroom run_defs)

lemma headroom_plus_100:
  "IncreaseScore (projr (New headroom_opts)) tiered_redis [(''points'', Finite 100)] ''player1'' =
     (Inr 18014398509482084,
      \<lparr> zsets = (\<lambda>key. Map.empty)(''headroom'' := [''player1'' \<mapsto> Finite 18014398509482084]),
        readFailure = None, writeFailure = None \<rparr>)"
  by (simp add: New_headroom run_defs tiered_redis_def eval_defs)

lemma headroom_plus_100_fst:
  "fst (IncreaseScore (projr (New headroom_opts)) tiered_redis
         [(''points'', Finite 100)] ''player1'') = Inr 18014398509482084"
  by (simp add: headroom_plus_100)

lemma headroom_plus_50:
  "fst (IncreaseScore (projr (New headroom_opts))
         (snd (IncreaseScore (projr (New headroom_opts)) tiered_redis
                [(''points'', Finite 100)] ''player1''))
         [(''points'', Finite 50)] ''player1'') = Inr 36028797018964118"
  by (simp add: headroom_plus_100) (simp add: New_headroom run_defs eval_defs)

lemma headroom_plus_150:
  "fst (IncreaseScore (projr (New headroom_opts)) tiered_redis
         [(''points'', Finite 150)] ''player1'') = Inr 18014398509482134"
  by (simp add: New_headroom run_defs tiered_redis_def eval_defs)

text \<open>
  C9 on the code. In the same codec \<open>player1\<close> starts at \<open>2 ^ 53\<close>, the packed score of tier
  1, total 0, points 0. The update \<open>points +100\<close> followed by \<open>points +50\<close> returns
  \<open>2 ^ 55 + 150\<close>; the single update \<open>points +150\<close> returns \<open>2 ^ 54 + 150\<close>. The points stay
  within 255 throughout: each read-modify-write adds the bits of \<open>tier\<close>, read through the
  mask of \<open>total\<close>, to the score once more.
\<close>

theorem C9_additivity_fails_under_wide_mask:
  "scoresToZScore (projr (New headroom_opts)) [1, 0, 0] = Inr 9007199254740992
     \<and> ZScore tiered_redis (name (projr (New headroom_opts))) ''player1'' =
         Inr (Finite 9007199254740992)
     \<and> fst (IncreaseScore (projr (New headroom_opts)) tiered_redis
         [(''points'', Finite 100)] ''player1'') = Inr 18014398509482084
     \<and> fst (IncreaseScore (projr (New headroom_opts))
         (snd (IncreaseScore (projr (New headroom_opts)) tiered_redis
                [(''points'', Finite 100)] ''player1''))
         [(''points'', Finite 50)] ''player1'') = Inr 36028797018964118
     \<and> fst (IncreaseScore (projr (New headroom_opts)) tiered_redis
         [(''points'', Finite 150)] ''player1'') = Inr 18014398509482134"
proof -
  have "scoresToZScore (projr (New headroom_opts)) [1, 0, 0] = Inr 9007199254740992"
    "ZScore tiered_redis (name (projr (New headroom_opts))) ''player1'' =
       Inr (Finite 9007199254740992)"
    by (simp_all add: New_headroom run_defs tiered_redis_def)
  with headroom_plus_100_fst headroom_plus_50 headroom_plus_150 show ?thesis by blast
qed

subsection \<open>Ordering\<close>

text \<open>
  C6. In a codec of a descending field \<open>A\<close>, declared first, and an ascending field \<open>B\<close>,
  a logical value \<open>a\<close> of \<open>A\<close> is packed as \<open>defaultScore + a * multiplier\<close>, which is
  \<open>maxAbsolute - a\<close>, and a value \<open>b\<close> of \<open>B\<close> as \<open>b\<close>. Of two assignments with the same
  \<open>b\<close>, the one with the greater \<open>a\<close> packs to the smaller score. The proof does not need
  the values to be in range.
\<close>

theorem C6_descending_first_field_orders:
  assumes "New opts = Inr mfs" and "opt_Fields opts = [A, B]"
    and "Sort A = Descending" and "Sort B = Ascending" and "aY < aX"
  shows "\<exists>fA fB zx zy. mfields mfs = [fA, fB] \<and> Name fA = Name A \<and> Name fB = Name B
     \<and> shiftValue fB = 0
     \<and> defaultScore fA + aX * multiplier fA = maxAbsolute fA - aX
     \<and> defaultScore fA + aY * multiplier fA = maxAbsolute fA - aY
     \<and> defaultScore fB + b * multiplier fB = b
     \<and> scoresToZScore mfs [maxAbsolute fA - aX, b] = Inr zx
     \<and> scoresToZScore mfs [maxAbsolute fA - aY, b] = Inr zy
     \<and> zx < zy"
proof -
  from New_fields(1) [OF assms(1)] assms(2) obtain t where
    "setIndices 0 [projr (newMultiField A), projr (newMultiField B)] = Inr (mfields mfs, t)"
    by auto
  from setIndices_Cons_InrD [OF this] obtain rest' t' fA where
    r: "setIndices (Suc 0) [projr (newMultiField B)] = Inr (rest', t')"
    and a: "setIndex (projr (newMultiField A)) 0 t' = Inr fA" and f1: "mfields mfs = fA # rest'"
    by blast
  from setIndices_Cons_InrD [OF r] obtain fB where
    b: "setIndex (projr (newMultiField B)) (Suc 0) 0 = Inr fB" and f2: "rest' = [fB]"
    by auto
  have f: "mfields mfs = [fA, fB]" using f1 f2 by simp
  have d: "Sort fA = Descending" "Sort fB \<noteq> Descending" "multiplier fA = - 1" "multiplier fB = 1"
    using assms(3,4) setIndex_InrD [OF a] setIndex_InrD [OF b]
    by (simp_all add: Ascending_def Descending_def)
  have "push_bit (shiftValue fA) (maxAbsolute fA - aX) < push_bit (shiftValue fA) (maxAbsolute fA - aY)"
    using assms(5) by (simp add: push_bit_eq_mult)
  then have lt: "push_bit (shiftValue fA) (maxAbsolute fA - aX) + push_bit (shiftValue fB) b
      < push_bit (shiftValue fA) (maxAbsolute fA - aY) + push_bit (shiftValue fB) b" by simp
  have n: "Name fA = Name A" "Name fB = Name B" "shiftValue fB = 0"
    using setIndex_InrD [OF a] setIndex_InrD [OF b] by simp_all
  show ?thesis
    apply (rule exI [of _ fA], rule exI [of _ fB])
    using f d lt n by (simp add: scoresToZScore_def defaultScore_def)
qed

text \<open>In the leaderboard, 7 kills against 5 kills at 2 deaths each.\<close>

theorem C6_descending_first_field_witness:
  "\<exists>zx zy. scoresToZScore (projr (New leaderboard_opts)) [16383 - 7, 2] = Inr zx
     \<and> scoresToZScore (projr (New leaderboard_opts)) [16383 - 5, 2] = Inr zy \<and> zx < zy"
proof -
  have n: "New leaderboard_opts = Inr (projr (New leaderboard_opts))"
    by (simp add: New_leaderboard)
  have f: "opt_Fields leaderboard_opts = [kills_field, deaths_field]"
    by (simp add: leaderboard_opts_def)
  have s: "Sort kills_field = Descending" "Sort deaths_field = Ascending"
    by (simp_all add: kills_field_def deaths_field_def)
  have l: "(5::int) < 7" by simp
  from C6_descending_first_field_orders [OF n f s l, of 2]
  obtain fA fB zx zy where o: "mfields (projr (New leaderboard_opts)) = [fA, fB]"
    "scoresToZScore (projr (New leaderboard_opts)) [maxAbsolute fA - 7, 2] = Inr zx"
    "scoresToZScore (projr (New leaderboard_opts)) [maxAbsolute fA - 5, 2] = Inr zy" "zx < zy"
    by blast
  from o(1) have "maxAbsolute fA = 16383" by (auto simp: New_leaderboard)
  with o show ?thesis by auto
qed

subsection \<open>The update loop\<close>

lemma New_position:
  assumes "New opts = Inr mfs" and "k < length (mfields mfs)"
  shows "position (mfields mfs ! k) = k"
  using New_nth [OF assms(1), of k] assms(2) New_fields(4) [OF assms(1)]
  by (auto dest: setIndex_InrD)

lemma GetFieldByName_SomeD:
  "GetFieldByName mfs n = Some f \<Longrightarrow> f \<in> set (mfields mfs) \<and> Name f = n"
  by (auto simp: GetFieldByName_def find_Some_iff)

lemma New_member_position:
  assumes "New opts = Inr mfs" and "f \<in> set (mfields mfs)"
  shows "position f < length (mfields mfs) \<and> mfields mfs ! position f = f"
proof -
  from assms(2) obtain k where k: "k < length (mfields mfs)" "mfields mfs ! k = f"
    by (auto simp: in_set_conv_nth)
  with New_position [OF assms(1) k(1)] show ?thesis by simp
qed

lemma New_positions_differ:
  assumes "New opts = Inr mfs"
    and "GetFieldByName mfs n = Some f" and "GetFieldByName mfs n' = Some f'" and "n \<noteq> n'"
  shows "position f \<noteq> position f'"
proof
  assume e: "position f = position f'"
  from GetFieldByName_SomeD [OF assms(2)] GetFieldByName_SomeD [OF assms(3)]
  have m: "f \<in> set (mfields mfs)" "f' \<in> set (mfields mfs)" "Name f = n" "Name f' = n'" by auto
  from New_member_position [OF assms(1) m(1)] New_member_position [OF assms(1) m(2)] e
  have "f = f'" by metis
  with m assms(4) show False by simp
qed

lemma updateOne_known:
  assumes "GetFieldByName mfs n = Some f" and "position f < length sc"
    and "UpdateType f = Incremental \<or> UpdateType f = Replace"
  shows "updateOne mfs sc (n, a) =
     (let v = (if UpdateType f = Incremental then sc ! position f else defaultScore f)
                + toInt64 a * multiplier f
      in if v < 0 \<or> maxAbsolute f < v then Inl (ScoreOutOfRange v (Name f))
         else Inr (sc[position f := v]))"
  using assms by (auto simp: updateOne_def checkRange_def Let_def Incremental_def Replace_def)

lemma updateOne_InrD:
  assumes "updateOne mfs sc (n, a) = Inr sc'"
  shows "\<exists>f. GetFieldByName mfs n = Some f \<and> position f < length sc
     \<and> (UpdateType f = Incremental \<or> UpdateType f = Replace)
     \<and> sc' = sc[position f := (if UpdateType f = Incremental then sc ! position f else defaultScore f)
                + toInt64 a * multiplier f]"
  using assms
  by (auto simp: updateOne_def checkRange_def Let_def split: option.splits if_splits)

lemma updateOne_length:
  "updateOne mfs sc u = Inr sc' \<Longrightarrow> length sc' = length sc"
  using updateOne_InrD [of mfs sc "fst u" "snd u" sc'] by auto

lemma updateScores_length:
  "updateScores mfs sc ups = Inr sc' \<Longrightarrow> length sc' = length sc"
proof (induction ups arbitrary: sc)
  case Nil
  then show ?case by simp
next
  case (Cons u rest)
  then show ?case
    by (auto split: sum.splits dest: updateOne_length)
qed

lemma updateOne_other:
  assumes "New opts = Inr mfs" and "GetFieldByName mfs n = Some f" and "fst u \<noteq> n"
    and "updateOne mfs sc u = Inr sc'"
  shows "sc' ! position f = sc ! position f"
proof -
  from updateOne_InrD [of mfs sc "fst u" "snd u" sc'] assms(4) obtain g v where
    g: "GetFieldByName mfs (fst u) = Some g" "sc' = sc[position g := v]" by auto
  from New_positions_differ [OF assms(1) assms(2) g(1)] assms(3)
  have "position f \<noteq> position g" by auto
  with g(2) show ?thesis by simp
qed

lemma updateScores_untouched:
  assumes "New opts = Inr mfs" and "GetFieldByName mfs n = Some f"
  shows "n \<notin> fst ` set ups \<Longrightarrow> updateScores mfs sc ups = Inr sc' \<Longrightarrow>
     sc' ! position f = sc ! position f"
proof (induction ups arbitrary: sc)
  case Nil
  then show ?case by simp
next
  case (Cons u rest)
  from Cons.prems(2) obtain sc1 where s: "updateOne mfs sc u = Inr sc1"
    "updateScores mfs sc1 rest = Inr sc'" by (auto split: sum.splits)
  from Cons.prems(1) have n: "fst u \<noteq> n" "n \<notin> fst ` set rest" by auto
  from Cons.IH [OF n(2) s(2)] updateOne_other [OF assms n(1) s(1)]
  show ?case by simp
qed

subsection \<open>Range check and abort\<close>

lemma IncreaseScore_error_unchanged:
  "isl (fst (IncreaseScore mfs r ups m)) \<Longrightarrow> snd (IncreaseScore mfs r ups m) = r"
  by (auto simp: IncreaseScore_def storeScores_def ZAdd_def ZScore_def
      split: sum.splits error.splits option.splits prod.splits)

lemma IncreaseScore_start:
  assumes "readFailure r = None"
  shows "IncreaseScore mfs r ups m =
     (case updateScores mfs
             (case zsets r (name mfs) m of
                None \<Rightarrow> map defaultScore (mfields mfs)
              | Some cur \<Rightarrow> getFieldScores mfs (Some (toInt64 cur))) ups of
        Inl e \<Rightarrow> (Inl e, r)
      | Inr sc \<Rightarrow> storeScores mfs r sc m)"
  using assms by (simp add: IncreaseScore_def ZScore_def split: option.splits)

lemma start_length:
  "length (case x of None \<Rightarrow> map defaultScore (mfields mfs)
            | Some cur \<Rightarrow> getFieldScores mfs (Some (toInt64 cur))) = length (mfields mfs)"
  by (simp add: getFieldScores_def split: option.splits)

lemma updateScores_rejects:
  assumes "New opts = Inr mfs" and "GetFieldByName mfs n = Some f"
    and "UpdateType f = Incremental \<or> UpdateType f = Replace"
  shows "distinct (map fst ups) \<Longrightarrow> (n, a) \<in> set ups \<Longrightarrow> length sc = length (mfields mfs) \<Longrightarrow>
     v = (if UpdateType f = Incremental then sc ! position f else defaultScore f)
           + toInt64 a * multiplier f \<Longrightarrow>
     v < 0 \<or> maxAbsolute f < v \<Longrightarrow> isl (updateScores mfs sc ups)"
proof (induction ups arbitrary: sc)
  case Nil
  then show ?case by simp
next
  case (Cons u rest)
  from GetFieldByName_SomeD [OF assms(2)] New_member_position [OF assms(1)] Cons.prems(3)
  have p: "position f < length sc" by simp
  show ?case
  proof (cases "u = (n, a)")
    case True
    with updateOne_known [OF assms(2) p assms(3), of a] Cons.prems(4,5)
    show ?thesis by (auto simp: Let_def)
  next
    case False
    with Cons.prems(2) have r: "(n, a) \<in> set rest" by simp
    then have "n \<in> fst ` set rest" by force
    with Cons.prems(1) have ne: "fst u \<noteq> n" by auto
    show ?thesis
    proof (cases "updateOne mfs sc u")
      case (Inl e)
      then show ?thesis by simp
    next
      case (Inr sc1)
      from updateOne_other [OF assms(1,2) ne Inr] updateOne_length [OF Inr] Cons.prems
      have "isl (updateScores mfs sc1 rest)"
        using r by (intro Cons.IH [of sc1]) auto
      with Inr show ?thesis by simp
    qed
  qed
qed

lemma updateScores_error_kind:
  assumes "New opts = Inr mfs"
  shows "\<forall>u \<in> set ups. \<exists>g. GetFieldByName mfs (fst u) = Some g
            \<and> (UpdateType g = Incremental \<or> UpdateType g = Replace) \<Longrightarrow>
     length sc = length (mfields mfs) \<Longrightarrow> updateScores mfs sc ups = Inl e \<Longrightarrow>
     \<exists>v' n'. e = ScoreOutOfRange v' n'"
proof (induction ups arbitrary: sc)
  case Nil
  then show ?case by simp
next
  case (Cons u rest)
  from Cons.prems(1) obtain g where g: "GetFieldByName mfs (fst u) = Some g"
    "UpdateType g = Incremental \<or> UpdateType g = Replace" by auto
  from GetFieldByName_SomeD [OF g(1)] New_member_position [OF assms] Cons.prems(2)
  have p: "position g < length sc" by simp
  note k = updateOne_known [OF g(1) p g(2), of "snd u"]
  show ?case
  proof (cases "updateOne mfs sc u")
    case (Inl e')
    with Cons.prems(3) have "e' = e" by simp
    with Inl k show ?thesis by (auto simp: Let_def split: if_splits)
  next
    case (Inr sc1)
    with Cons.prems(3) have "updateScores mfs sc1 rest = Inl e" by simp
    moreover from updateOne_length [OF Inr] Cons.prems(2)
    have "length sc1 = length (mfields mfs)" by simp
    ultimately show ?thesis using Cons.IH [of sc1] Cons.prems(1) by auto
  qed
qed

text \<open>
  C4, amended. The bound of the range check is \<open>maxAbsolute\<close>, the capacity of the slot.
  When Redis can be read and some entry of the update, whose field is known and has a
  known update type, would take its packed value below 0 or above \<open>maxAbsolute\<close>, then
  \<open>IncreaseScore\<close> fails and Redis is left as it was; the error is the out-of-range error
  when no entry names an unknown field or has an unknown update type. On every error
  path, of any call, Redis is left as it was.
\<close>

theorem C4_out_of_range_aborts_update:
  assumes "New opts = Inr mfs" and "distinct (map fst ups)" and "readFailure r = None"
    and "(n, a) \<in> set ups" and "GetFieldByName mfs n = Some f"
    and "UpdateType f = Incremental \<or> UpdateType f = Replace"
    and "start = (case zsets r (name mfs) member of
                    None \<Rightarrow> map defaultScore (mfields mfs)
                  | Some cur \<Rightarrow> getFieldScores mfs (Some (toInt64 cur)))"
    and "v = (if UpdateType f = Incremental then start ! position f else defaultScore f)
               + toInt64 a * multiplier f"
    and "v < 0 \<or> maxAbsolute f < v"
  shows "isl (fst (IncreaseScore mfs r ups member))
     \<and> snd (IncreaseScore mfs r ups member) = r
     \<and> ((\<forall>u \<in> set ups. \<exists>g. GetFieldByName mfs (fst u) = Some g
            \<and> (UpdateType g = Incremental \<or> UpdateType g = Replace)) \<longrightarrow>
         (\<exists>v' n'. fst (IncreaseScore mfs r ups member) = Inl (ScoreOutOfRange v' n')))
     \<and> (isl (fst (IncreaseScore mfs2 r2 ups2 member2)) \<longrightarrow>
          snd (IncreaseScore mfs2 r2 ups2 member2) = r2)"
proof -
  have l: "length start = length (mfields mfs)" unfolding assms(7) by (rule start_length)
  from updateScores_rejects [OF assms(1,5,6,2,4) l assms(8,9)]
  obtain e where e: "updateScores mfs start ups = Inl e" by (cases "updateScores mfs start ups") auto
  have i: "IncreaseScore mfs r ups member = (Inl e, r)"
    using IncreaseScore_start [OF assms(3), of mfs ups member] e by (simp add: assms(7))
  have k: "\<exists>v' n'. e = ScoreOutOfRange v' n'"
    if "\<forall>u \<in> set ups. \<exists>g. GetFieldByName mfs (fst u) = Some g
            \<and> (UpdateType g = Incremental \<or> UpdateType g = Replace)"
    using updateScores_error_kind [OF assms(1) that l e] .
  from i k IncreaseScore_error_unchanged [of mfs2 r2 ups2 member2] show ?thesis by auto
qed

text \<open>
  C4 as stated fails where it names the declared maximum: \<open>deaths\<close> is declared with the
  maximum 10000 and has 14 bits, so \<open>maxAbsolute\<close> is 16383, and incrementing it from 0 by
  10001 succeeds and is written to Redis. And an update that would take \<open>deaths\<close> below 0
  fails with another error when the loop meets an unknown field first.
\<close>

theorem C4_past_declared_max_counterexample:
  "MaxValue (opt_Fields leaderboard_opts ! 1) = Finite 10000
   \<and> IncreaseScore (projr (New leaderboard_opts)) empty_redis [(''deaths'', Finite 10001)] ''player1'' =
     (Inr 268429073,
      \<lparr> zsets = (\<lambda>key. Map.empty)(''game:leaderboard'' := [''player1'' \<mapsto> Finite 268429073]),
        readFailure = None, writeFailure = None \<rparr>)
   \<and> getFieldScores (projr (New leaderboard_opts)) (Some 268429073) = [16383, 10001]
   \<and> fst (IncreaseScore (projr (New leaderboard_opts)) empty_redis
            [(''assists'', Finite 1), (''deaths'', Finite (- 1))] ''player1'') =
       Inl (FieldNotFound ''assists'')"
proof -
  have "MaxValue (opt_Fields leaderboard_opts ! 1) = Finite 10000"
    by (simp add: leaderboard_opts_def deaths_field_def)
  then show ?thesis
    by (simp add: New_leaderboard run_defs empty_redis_def eval_defs)
qed

text \<open>Decrementing \<open>deaths\<close> below 0, in an update that also increments \<open>kills\<close>.\<close>

theorem C4_out_of_range_witness:
  "isl (fst (IncreaseScore (projr (New leaderboard_opts)) empty_redis
               [(''kills'', Finite 5), (''deaths'', Finite (- 1))] ''player1''))
   \<and> snd (IncreaseScore (projr (New leaderboard_opts)) empty_redis
               [(''kills'', Finite 5), (''deaths'', Finite (- 1))] ''player1'') = empty_redis
   \<and> (\<exists>v' n'. fst (IncreaseScore (projr (New leaderboard_opts)) empty_redis
               [(''kills'', Finite 5), (''deaths'', Finite (- 1))] ''player1'') = Inl (ScoreOutOfRange v' n'))"
proof -
  let ?mfs = "projr (New leaderboard_opts)"
  let ?f = "mfields ?mfs ! 1"
  let ?ups = "[(''kills'', Finite 5), (''deaths'', Finite (- 1))]"
  have n: "New leaderboard_opts = Inr ?mfs" by (simp add: New_leaderboard)
  have d: "distinct (map fst ?ups)" by simp
  have r: "readFailure empty_redis = None" by (simp add: empty_redis_def)
  have m: "(''deaths'', Finite (- 1)) \<in> set ?ups" by simp
  have g: "GetFieldByName ?mfs ''deaths'' = Some ?f"
    by (simp add: New_leaderboard GetFieldByName_def)
  have t: "UpdateType ?f = Incremental \<or> UpdateType ?f = Replace"
    by (simp add: New_leaderboard Incremental_def)
  define start where "start = (case zsets empty_redis (name ?mfs) ''player1'' of
                    None \<Rightarrow> map defaultScore (mfields ?mfs)
                  | Some cur \<Rightarrow> getFieldScores ?mfs (Some (toInt64 cur)))"
  define v where "v = (if UpdateType ?f = Incremental then start ! position ?f else defaultScore ?f)
               + toInt64 (Finite (- 1)) * multiplier ?f"
  have "v = - 1"
    by (simp add: v_def start_def New_leaderboard empty_redis_def defaultScore_def eval_defs
        ceiling_def)
  then have o: "v < 0 \<or> maxAbsolute ?f < v" by simp
  have a: "\<forall>u \<in> set ?ups. \<exists>g. GetFieldByName ?mfs (fst u) = Some g
            \<and> (UpdateType g = Incremental \<or> UpdateType g = Replace)"
    by (simp add: New_leaderboard GetFieldByName_def Incremental_def)
  from C4_out_of_range_aborts_update [OF n d r m g t start_def v_def o] a
  show ?thesis by blast
qed

subsection \<open>Round trip without an unbounded field below another\<close>

lemma scoresLoop_sum:
  "length vs \<le> length fs \<Longrightarrow>
   scoresLoop fs vs acc = Inr (acc + sum_list (map2 (\<lambda>f v. push_bit (shiftValue f) v) fs vs))"
  by (induction fs vs acc rule: scoresLoop.induct) simp_all

lemma extract_slot:
  fixes z :: int
  assumes "fmask f = push_bit (shiftValue f) (2 ^ w - 1)"
  shows "extractFieldScore f (Some z) = take_bit w (drop_bit (shiftValue f) z)"
proof -
  have "drop_bit (shiftValue f) (and z (push_bit (shiftValue f) (mask w))) =
      and (drop_bit (shiftValue f) z) (mask w :: int)"
    by (simp add: bit_eq_iff bit_simps)
  then show ?thesis
    by (simp add: extractFieldScore_def assms take_bit_eq_mask mask_eq_exp_minus_1)
qed

lemma and_low_mask:
  fixes r m v :: int
  assumes "0 \<le> r" "r < 2 ^ t" "0 \<le> m" "m < 2 ^ t"
  shows "and (v * 2 ^ t + r) m = and r m"
proof -
  have m: "take_bit t m = m" using assms(3,4) by (simp add: take_bit_int_eq_self)
  have r: "take_bit t (v * 2 ^ t + r) = r"
    using assms(1,2) by (simp add: take_bit_eq_mod)
  have "and (v * 2 ^ t + r) (take_bit t m) = and (take_bit t (v * 2 ^ t + r)) m"
    by (simp add: bit_eq_iff bit_simps) blast
  with m r show ?thesis by simp
qed

lemma drop_low:
  fixes r v :: int
  assumes "0 \<le> r" "r < 2 ^ t"
  shows "drop_bit t (v * 2 ^ t + r) = v"
  using assms by (simp add: drop_bit_eq_div)

text \<open>
  Bounded fields, indexed by the loop of \<open>New\<close>: the total width is the sum of the widths,
  the packed score of values within their maxima is below \<open>2\<close> to that width, every mask
  lies below it too, and every field is read back.
\<close>

lemma layout_round_trip:
  "\<forall>f \<in> set fs0. \<not> isMain f \<and> fmask f = 2 ^ bits f - 1 \<and> maxAbsolute f = 2 ^ bits f - 1 \<Longrightarrow>
   sum_list (map bits fs0) < 2 ^ 64 \<Longrightarrow>
   length vs = length fs0 \<Longrightarrow>
   \<forall>k < length fs0. 0 \<le> vs ! k \<and> vs ! k \<le> maxAbsolute (fs0 ! k) \<Longrightarrow>
   \<exists>fs. setIndices i fs0 = Inr (fs, sum_list (map bits fs0))
     \<and> 0 \<le> sum_list (map2 (\<lambda>f v. push_bit (shiftValue f) v) fs vs)
     \<and> sum_list (map2 (\<lambda>f v. push_bit (shiftValue f) v) fs vs) < 2 ^ sum_list (map bits fs0)
     \<and> (\<forall>k < length fs0.
           0 \<le> fmask (fs ! k) \<and> fmask (fs ! k) < 2 ^ sum_list (map bits fs0)
         \<and> maxAbsolute (fs ! k) = maxAbsolute (fs0 ! k)
         \<and> extractFieldScore (fs ! k)
              (Some (sum_list (map2 (\<lambda>f v. push_bit (shiftValue f) v) fs vs))) = vs ! k)"
proof (induction fs0 arbitrary: i vs)
  case Nil
  then show ?case by simp
next
  case (Cons f rest)
  from Cons.prems(3) obtain v vs' where vs: "vs = v # vs'" "length vs' = length rest"
    by (cases vs) auto
  define t where "t = sum_list (map bits rest)"
  define b where "b = bits f"
  have p1: "\<forall>f \<in> set rest. \<not> isMain f \<and> fmask f = 2 ^ bits f - 1 \<and> maxAbsolute f = 2 ^ bits f - 1"
    using Cons.prems(1) by simp
  have p2: "sum_list (map bits rest) < 2 ^ 64" using Cons.prems(2) by simp
  have p4: "\<forall>k < length rest. 0 \<le> vs' ! k \<and> vs' ! k \<le> maxAbsolute (rest ! k)"
    using Cons.prems(4) vs by auto
  from Cons.IH [OF p1 p2 vs(2) p4, of "Suc i", folded t_def] obtain rest' where
    st: "setIndices (Suc i) rest = Inr (rest', t)"
    and z0r: "0 \<le> sum_list (map2 (\<lambda>f v. push_bit (shiftValue f) v) rest' vs')"
    and z1r: "sum_list (map2 (\<lambda>f v. push_bit (shiftValue f) v) rest' vs') < 2 ^ t"
    and rk0: "\<forall>k < length rest.
           0 \<le> fmask (rest' ! k) \<and> fmask (rest' ! k) < 2 ^ t
         \<and> maxAbsolute (rest' ! k) = maxAbsolute (rest ! k)
         \<and> extractFieldScore (rest' ! k)
              (Some (sum_list (map2 (\<lambda>f v. push_bit (shiftValue f) v) rest' vs'))) = vs' ! k"
    by blast
  define zr where "zr = sum_list (map2 (\<lambda>f v. push_bit (shiftValue f) v) rest' vs')"
  have zr: "0 \<le> zr" "zr < 2 ^ t" using z0r z1r by (simp_all add: zr_def)
  have rk: "0 \<le> fmask (rest' ! k) \<and> fmask (rest' ! k) < 2 ^ t
        \<and> maxAbsolute (rest' ! k) = maxAbsolute (rest ! k)
        \<and> extractFieldScore (rest' ! k) (Some zr) = vs' ! k" if "k < length rest" for k
    using that rk0 by (simp add: zr_def)
  have fm: "\<not> isMain f" "fmask f = 2 ^ b - 1" "maxAbsolute f = 2 ^ b - 1"
    using Cons.prems(1) by (simp_all add: b_def)
  define f' where "f' = f\<lparr> position := i, shiftValue := t, fmask := push_bit t (fmask f) \<rparr>"
  have si: "setIndex f i t = Inr f'" unfolding f'_def by (rule setIndex_not_main [OF fm(1)])
  have f': "shiftValue f' = t" "fmask f' = push_bit t (2 ^ b - 1)" "maxAbsolute f' = 2 ^ b - 1"
    "bits f' = b"
    using fm by (simp_all add: f'_def b_def)
  have "t + b < 2 ^ 64" using Cons.prems(2) by (simp add: t_def b_def)
  then have fs: "setIndices i (f # rest) = Inr (f' # rest', b + t)"
    by (simp add: st si add_u64_def f'(4) add.commute)
  have v: "0 \<le> v" "v < 2 ^ b" using Cons.prems(4) vs fm by auto
  define z where "z = v * 2 ^ t + zr"
  have zs: "sum_list (map2 (\<lambda>f v. push_bit (shiftValue f) v) (f' # rest') vs) = z"
    by (simp add: vs f' z_def zr_def push_bit_eq_mult)
  have z0: "0 \<le> z" using v zr by (simp add: z_def)
  have "v + 1 \<le> 2 ^ b" using v by simp
  then have "(v + 1) * 2 ^ t \<le> 2 ^ b * (2 ^ t :: int)" by (intro mult_right_mono) simp_all
  then have z1: "z < 2 ^ (b + t)" using zr by (simp add: z_def power_add algebra_simps)
  have hd: "extractFieldScore f' (Some z) = v"
  proof -
    have "extractFieldScore f' (Some z) = take_bit b (drop_bit t z)"
      using extract_slot [of f' b z] f' by simp
    also have "drop_bit t z = v" unfolding z_def by (rule drop_low [OF zr])
    also have "take_bit b v = v" using v by (simp add: take_bit_int_eq_self)
    finally show ?thesis .
  qed
  have hm: "0 \<le> fmask f'" "fmask f' < 2 ^ (b + t)"
  proof -
    have m: "fmask f' = (2 ^ b - 1) * 2 ^ t" by (simp add: f' push_bit_eq_mult)
    show "0 \<le> fmask f'" unfolding m by simp
    show "fmask f' < 2 ^ (b + t)" unfolding m by (simp add: power_add algebra_simps)
  qed
  have tl: "0 \<le> fmask (rest' ! k) \<and> fmask (rest' ! k) < 2 ^ (b + t)
        \<and> maxAbsolute (rest' ! k) = maxAbsolute (rest ! k)
        \<and> extractFieldScore (rest' ! k) (Some z) = vs' ! k" if k: "k < length rest" for k
  proof -
    note r = rk [OF k]
    have "(2::int) ^ t \<le> 2 ^ (b + t)" by (intro power_increasing) simp_all
    with r have lt: "fmask (rest' ! k) < 2 ^ (b + t)" by linarith
    have "and z (fmask (rest' ! k)) = and zr (fmask (rest' ! k))"
      unfolding z_def using r zr by (intro and_low_mask) simp_all
    then have "extractFieldScore (rest' ! k) (Some z) = extractFieldScore (rest' ! k) (Some zr)"
      by (simp add: extractFieldScore_def)
    with r lt show ?thesis by simp
  qed
  have all: "0 \<le> fmask ((f' # rest') ! k) \<and> fmask ((f' # rest') ! k) < 2 ^ (b + t)
        \<and> maxAbsolute ((f' # rest') ! k) = maxAbsolute ((f # rest) ! k)
        \<and> extractFieldScore ((f' # rest') ! k) (Some z) = vs ! k" if "k < length (f # rest)" for k
  proof (cases k)
    case 0
    with hd hm f' fm show ?thesis by (simp add: vs)
  next
    case (Suc k')
    with that tl [of k'] show ?thesis by (simp add: vs)
  qed
  have sm: "sum_list (map bits (f # rest)) = b + t" by (simp add: b_def t_def)
  show ?case
    unfolding sm using fs z0 z1 all zs by (intro exI [of _ "f' # rest'"]) (simp only:, blast)
qed


text \<open>
  Packing and unpacking are inverse in every codec in which no field declared after the
  first is unbounded: the slots of the bounded fields are exact, and above the first field
  there is nothing that its mask could read. The widths of the fields after the first must
  not wrap the \<open>uint64\<close> counter, and must leave an unbounded first field a width.
\<close>

lemma round_trip_unbounded_first_only:
  assumes "New opts = Inr mfs"
    and "\<forall>f \<in> set (tl (opt_Fields opts)). MaxValue f \<noteq> PosInf"
    and "W = sum_list (map (\<lambda>f. BitCount (MaxValue f)) (tl (opt_Fields opts)))"
    and "W < 2 ^ 64" and "MaxValue (hd (opt_Fields opts)) = PosInf \<longrightarrow> W \<le> 53"
    and "length V = length (mfields mfs)"
    and "\<forall>k < length V. 0 \<le> V ! k \<and> V ! k \<le> maxAbsolute (mfields mfs ! k)"
  shows "\<exists>z. scoresToZScore mfs V = Inr z \<and> getFieldScores mfs (Some z) = V"
proof -
  from New_fields(3) [OF assms(1)] obtain F0 R where F: "opt_Fields opts = F0 # R"
    by (cases "opt_Fields opts") auto
  define rest0 where "rest0 = map (\<lambda>f. projr (newMultiField f)) R"
  define g0 where "g0 = projr (newMultiField F0)"
  from New_fields(1) [OF assms(1)] F obtain t0 where
    "setIndices 0 (g0 # rest0) = Inr (mfields mfs, t0)" by (auto simp: g0_def rest0_def)
  from setIndices_Cons_InrD [OF this] obtain rest' t' f' where
    st: "setIndices (Suc 0) rest0 = Inr (rest', t')" and si: "setIndex g0 0 t' = Inr f'"
    and fs: "mfields mfs = f' # rest'" by blast
  have nb: "\<forall>f \<in> set rest0. \<not> isMain f \<and> fmask f = 2 ^ bits f - 1 \<and> maxAbsolute f = 2 ^ bits f - 1"
    using assms(2) F by (auto simp: rest0_def newMultiField_bounded)
  have "map bits rest0 = map (\<lambda>f. BitCount (MaxValue f)) R"
    using assms(2) F by (auto simp: rest0_def newMultiField_bounded)
  then have sw: "sum_list (map bits rest0) = W" using assms(3) F by simp
  have lr: "length rest' = length rest0" using setIndices_length [OF st] .
  from assms(6) fs lr obtain v vs' where V: "V = v # vs'" "length vs' = length rest0"
    by (cases V) auto
  have mk: "maxAbsolute (rest' ! k) = maxAbsolute (rest0 ! k)" if k: "k < length rest0" for k
  proof -
    from setIndices_nth [OF st k] obtain tk where
      s: "setIndex (rest0 ! k) (Suc 0 + k) tk = Inr (rest' ! k)" by blast
    from nb k have "\<not> isMain (rest0 ! k)" by simp
    from setIndex_not_main [OF this, of "Suc 0 + k" tk] s
    have "rest' ! k = (rest0 ! k)\<lparr> position := Suc 0 + k, shiftValue := tk,
        fmask := push_bit tk (fmask (rest0 ! k)) \<rparr>" by simp
    then show ?thesis by simp
  qed
  have bk: "\<forall>k < length rest0. 0 \<le> vs' ! k \<and> vs' ! k \<le> maxAbsolute (rest0 ! k)"
  proof (intro allI impI)
    fix k assume k: "k < length rest0"
    from assms(7) k V have "0 \<le> V ! Suc k \<and> V ! Suc k \<le> maxAbsolute (mfields mfs ! Suc k)"
      by auto
    with mk [OF k] show "0 \<le> vs' ! k \<and> vs' ! k \<le> maxAbsolute (rest0 ! k)"
      by (simp add: V fs)
  qed
  have sw64: "sum_list (map bits rest0) < 2 ^ 64" using sw assms(4) by simp
  from layout_round_trip [OF nb sw64 V(2) bk, of "Suc 0", unfolded sw] st
  have tW: "t' = W"
    and z0r: "0 \<le> sum_list (map2 (\<lambda>f v. push_bit (shiftValue f) v) rest' vs')"
    and z1r: "sum_list (map2 (\<lambda>f v. push_bit (shiftValue f) v) rest' vs') < 2 ^ W"
    and rk0: "\<forall>k < length rest0.
           0 \<le> fmask (rest' ! k) \<and> fmask (rest' ! k) < 2 ^ W
         \<and> extractFieldScore (rest' ! k)
              (Some (sum_list (map2 (\<lambda>f v. push_bit (shiftValue f) v) rest' vs'))) = vs' ! k"
    by auto
  define zr where "zr = sum_list (map2 (\<lambda>f v. push_bit (shiftValue f) v) rest' vs')"
  have zr: "0 \<le> zr" "zr < 2 ^ W" using z0r z1r by (simp_all add: zr_def)
  have rk: "0 \<le> fmask (rest' ! k) \<and> fmask (rest' ! k) < 2 ^ W
        \<and> extractFieldScore (rest' ! k) (Some zr) = vs' ! k" if "k < length rest0" for k
    using that rk0 by (simp add: zr_def)
  have sh: "shiftValue f' = W" using setIndex_InrD(8) [OF si] tW by simp
  define z where "z = v * 2 ^ W + zr"
  have pk: "scoresToZScore mfs V = Inr z"
    using scoresLoop_sum [of V "mfields mfs" 0] assms(6)
    by (simp add: scoresToZScore_def fs V z_def zr_def sh push_bit_eq_mult)
  have v0: "0 \<le> v" "v \<le> maxAbsolute f'" using assms(7) V fs by auto
  have hd: "extractFieldScore f' (Some z) = v"
  proof (cases "MaxValue F0 = PosInf")
    case True
    with assms(5) F have w: "W \<le> 53" by simp
    from newMultiField_main [OF True] have m: "isMain g0" "fmask g0 = 2 ^ 53 - 1"
      by (simp_all add: g0_def)
    from setIndex_main [OF m w, of 0] si tW
    have "f' = g0\<lparr> position := 0, shiftValue := W, fmask := push_bit W (2 ^ 53 - 1),
        bits := 53 - W, maxAbsolute := 2 ^ (53 - W) - 1 \<rparr>" by simp
    then have fm: "fmask f' = push_bit (shiftValue f') (2 ^ 53 - 1)"
      "maxAbsolute f' = 2 ^ (53 - W) - 1" by simp_all
    with v0 have "v < 2 ^ (53 - W)" by simp
    also have "(2::int) ^ (53 - W) \<le> 2 ^ 53" by (intro power_increasing) simp_all
    finally have v53: "v < 2 ^ 53" .
    have "extractFieldScore f' (Some z) = take_bit 53 (drop_bit W z)"
      using extract_slot [OF fm(1), of z] by (simp add: sh)
    also have "drop_bit W z = v" unfolding z_def by (rule drop_low [OF zr])
    also have "take_bit 53 v = v" using v0 v53 by (simp add: take_bit_int_eq_self)
    finally show ?thesis .
  next
    case False
    define b where "b = bits g0"
    from newMultiField_bounded [OF False]
    have g: "\<not> isMain g0" "fmask g0 = 2 ^ b - 1" "maxAbsolute g0 = 2 ^ b - 1"
      by (simp_all add: g0_def b_def)
    from setIndex_not_main [OF g(1), of 0 t'] si
    have "f' = g0\<lparr> position := 0, shiftValue := t', fmask := push_bit t' (fmask g0) \<rparr>"
      by simp
    with g have fm: "fmask f' = push_bit (shiftValue f') (2 ^ b - 1)" "maxAbsolute f' = 2 ^ b - 1"
      by simp_all
    with v0 have vb: "v < 2 ^ b" by simp
    have "extractFieldScore f' (Some z) = take_bit b (drop_bit W z)"
      using extract_slot [OF fm(1), of z] by (simp add: sh)
    also have "drop_bit W z = v" unfolding z_def by (rule drop_low [OF zr])
    also have "take_bit b v = v" using v0 vb by (simp add: take_bit_int_eq_self)
    finally show ?thesis .
  qed
  have tl: "extractFieldScore (rest' ! k) (Some z) = vs' ! k" if k: "k < length rest0" for k
  proof -
    note r = rk [OF k]
    have "and z (fmask (rest' ! k)) = and zr (fmask (rest' ! k))"
      unfolding z_def using r zr by (intro and_low_mask) simp_all
    then have "extractFieldScore (rest' ! k) (Some z) = extractFieldScore (rest' ! k) (Some zr)"
      by (simp add: extractFieldScore_def)
    with r show ?thesis by simp
  qed
  have "map (\<lambda>f. extractFieldScore f (Some z)) rest' = vs'"
    using tl lr V(2) by (intro nth_equalityI) simp_all
  with hd have "getFieldScores mfs (Some z) = V"
    by (simp add: getFieldScores_def fs V)
  with pk show ?thesis by blast
qed

lemma New_bounded_plan:
  assumes "New opts = Inr mfs" and "k < length (opt_Fields opts)"
    and "MaxValue (opt_Fields opts ! k) \<noteq> PosInf"
  shows "fmask (mfields mfs ! k) =
           push_bit (shiftValue (mfields mfs ! k)) (2 ^ bits (mfields mfs ! k) - 1)"
    and "maxAbsolute (mfields mfs ! k) = 2 ^ bits (mfields mfs ! k) - 1"
proof -
  let ?g = "projr (newMultiField (opt_Fields opts ! k))"
  from New_nth [OF assms(1,2)] obtain tk where s: "setIndex ?g k tk = Inr (mfields mfs ! k)"
    by blast
  note nb = newMultiField_bounded [OF assms(3)]
  from nb have "\<not> isMain ?g" by simp
  from setIndex_not_main [OF this, of k tk] s
  have e: "mfields mfs ! k = ?g\<lparr> position := k, shiftValue := tk, fmask := push_bit tk (fmask ?g) \<rparr>"
    by simp
  from nb show "fmask (mfields mfs ! k) =
           push_bit (shiftValue (mfields mfs ! k)) (2 ^ bits (mfields mfs ! k) - 1)"
    by (simp add: e)
  from nb show "maxAbsolute (mfields mfs ! k) = 2 ^ bits (mfields mfs ! k) - 1"
    by (simp add: e)
qed

lemma start_in_range:
  assumes "New opts = Inr mfs" and "\<forall>g \<in> set (opt_Fields opts). MaxValue g \<noteq> PosInf"
    and "start = (case x of None \<Rightarrow> map defaultScore (mfields mfs)
                  | Some cur \<Rightarrow> getFieldScores mfs (Some (toInt64 cur)))"
    and "k < length (mfields mfs)"
  shows "0 \<le> start ! k \<and> start ! k \<le> maxAbsolute (mfields mfs ! k)"
proof -
  from assms(4) New_fields(4) [OF assms(1)] have k: "k < length (opt_Fields opts)" by simp
  with assms(2) have b: "MaxValue (opt_Fields opts ! k) \<noteq> PosInf" by simp
  note p = New_bounded_plan [OF assms(1) k b]
  let ?w = "bits (mfields mfs ! k)"
  have m: "(0::int) \<le> 2 ^ ?w - 1" by simp
  show ?thesis
  proof (cases x)
    case None
    with assms(3,4) p(2) m show ?thesis by (simp add: defaultScore_def)
  next
    case (Some cur)
    have "extractFieldScore (mfields mfs ! k) (Some (toInt64 cur)) =
        take_bit ?w (drop_bit (shiftValue (mfields mfs ! k)) (toInt64 cur))"
      by (rule extract_slot [OF p(1)])
    moreover have "0 \<le> take_bit ?w (drop_bit (shiftValue (mfields mfs ! k)) (toInt64 cur))"
      by simp
    moreover have "take_bit ?w (drop_bit (shiftValue (mfields mfs ! k)) (toInt64 cur)) < 2 ^ ?w"
      by (rule take_bit_int_less_exp)
    ultimately show ?thesis using Some assms(3,4) p(2) by (simp add: getFieldScores_def)
  qed
qed

text \<open>
  Without an unbounded field, the scores an update begins with are within their maxima,
  and so is the vector with one of them replaced by a value in range: it is read back from
  its packed score.
\<close>

lemma updated_round_trip:
  assumes "New opts = Inr mfs" and "GetFieldByName mfs n = Some f"
    and "\<forall>g \<in> set (opt_Fields opts). MaxValue g \<noteq> PosInf"
    and "sum_list (map (\<lambda>g. BitCount (MaxValue g)) (tl (opt_Fields opts))) < 2 ^ 64"
    and "start = (case x of None \<Rightarrow> map defaultScore (mfields mfs)
                  | Some cur \<Rightarrow> getFieldScores mfs (Some (toInt64 cur)))"
    and "0 \<le> v" and "v \<le> maxAbsolute f"
  shows "\<exists>z. scoresToZScore mfs (start[position f := v]) = Inr z
     \<and> getFieldScores mfs (Some z) = start[position f := v]
     \<and> extractFieldScore f (Some z) = v"
proof -
  let ?V = "start[position f := v]"
  have l: "length start = length (mfields mfs)" unfolding assms(5) by (rule start_length)
  from GetFieldByName_SomeD [OF assms(2)] New_member_position [OF assms(1)]
  have p: "position f < length (mfields mfs)" "mfields mfs ! position f = f" by simp_all
  from New_fields(3) [OF assms(1)] assms(3)
  have t: "\<forall>g \<in> set (tl (opt_Fields opts)). MaxValue g \<noteq> PosInf"
    "MaxValue (hd (opt_Fields opts)) \<noteq> PosInf"
    by (cases "opt_Fields opts"; simp)+
  have r: "\<forall>k < length ?V. 0 \<le> ?V ! k \<and> ?V ! k \<le> maxAbsolute (mfields mfs ! k)"
  proof (intro allI impI)
    fix k assume k: "k < length ?V"
    show "0 \<le> ?V ! k \<and> ?V ! k \<le> maxAbsolute (mfields mfs ! k)"
    proof (cases "k = position f")
      case True
      with assms(6,7) p l show ?thesis by simp
    next
      case False
      with start_in_range [OF assms(1,3,5), of k] k l show ?thesis by simp
    qed
  qed
  from round_trip_unbounded_first_only [OF assms(1) t(1) refl assms(4) _ _ r] t(2) l
  obtain z where z: "scoresToZScore mfs ?V = Inr z" "getFieldScores mfs (Some z) = ?V" by auto
  from z(2) p l have "extractFieldScore f (Some z) = v"
    by (metis getFieldScores_def nth_list_update_eq nth_map)
  with z show ?thesis by blast
qed

subsection \<open>Replace\<close>

lemma toInt64_of_int:
  "- (2 ^ 63) \<le> k \<Longrightarrow> k < 2 ^ 63 \<Longrightarrow> toInt64 (Finite (of_int k)) = k"
  by (simp add: toInt64_def trunc_def)

lemma storeScores_InrD:
  "fst (storeScores mfs r sc m) = Inr z \<Longrightarrow> scoresToZScore mfs sc = Inr z"
  by (auto simp: storeScores_def ZAdd_def split: sum.splits option.splits prod.splits)

lemma storeScores_written:
  assumes "writeFailure r = None" and "scoresToZScore mfs sc = Inr z"
  shows "storeScores mfs r sc m =
     (Inr z, r\<lparr> zsets := (zsets r)(name mfs := (zsets r (name mfs))(m \<mapsto> fromInt64 (Int64 z))) \<rparr>)"
  using assms by (simp add: storeScores_def ZAdd_def)

lemma updateScores_replace:
  assumes "New opts = Inr mfs" and "GetFieldByName mfs n = Some f" and "UpdateType f = Replace"
  shows "distinct (map fst ups) \<Longrightarrow> (n, a) \<in> set ups \<Longrightarrow> length sc = length (mfields mfs) \<Longrightarrow>
     updateScores mfs sc ups = Inr sc' \<Longrightarrow>
     sc' ! position f = defaultScore f + toInt64 a * multiplier f"
proof (induction ups arbitrary: sc)
  case Nil
  then show ?case by simp
next
  case (Cons u rest)
  from Cons.prems(4) obtain sc1 where s: "updateOne mfs sc u = Inr sc1"
    "updateScores mfs sc1 rest = Inr sc'" by (auto split: sum.splits)
  from GetFieldByName_SomeD [OF assms(2)] New_member_position [OF assms(1)] Cons.prems(3)
  have p: "position f < length sc" by simp
  have t: "UpdateType f \<noteq> Incremental" "UpdateType f = Incremental \<or> UpdateType f = Replace"
    using assms(3) by (simp_all add: Incremental_def Replace_def)
  show ?case
  proof (cases "u = (n, a)")
    case True
    with Cons.prems(1) have "n \<notin> fst ` set rest" by auto
    from updateScores_untouched [OF assms(1,2) this s(2)]
    have "sc' ! position f = sc1 ! position f" .
    moreover from updateOne_known [OF assms(2) p t(2), of a] s(1) True t(1) p
    have "sc1 ! position f = defaultScore f + toInt64 a * multiplier f"
      by (auto simp: Let_def split: if_splits)
    ultimately show ?thesis by simp
  next
    case False
    with Cons.prems(2) have "(n, a) \<in> set rest" by simp
    moreover from Cons.prems(1) have "distinct (map fst rest)" by simp
    moreover from updateOne_length [OF s(1)] Cons.prems(3)
    have "length sc1 = length (mfields mfs)" by simp
    ultimately show ?thesis using Cons.IH [of sc1] s(2) by blast
  qed
qed

text \<open>
  C8. Let \<open>start\<close> be the scores an update begins with, the defaults for a member that
  Redis does not have and the unpacked score for one that it has, and \<open>v\<close> the value
  \<open>defaultScore + int64(amount) * multiplier\<close> of a field whose update type is \<open>Replace\<close>.
  An update of that field alone fails with the out-of-range error when \<open>v\<close> is out of range,
  and otherwise packs and writes \<open>start\<close> with \<open>v\<close> at the field's position: the score it
  returns is the packed vector, and the score Redis holds is its conversion to \<open>float64\<close>.
  In an update of several fields that succeeds, the vector the loop returns has \<open>v\<close> at the
  field's position and the returned score is that vector packed. In a codec without an
  unbounded field, unpacking the score of the single update gives \<open>v\<close> for the field and
  leaves every other field as it was. \<open>int64(amount)\<close> is the amount itself when the amount
  is an integer of 64 bits.
\<close>

theorem C8_replace_relative_to_default:
  assumes "New opts = Inr mfs" and "GetFieldByName mfs n = Some f" and "UpdateType f = Replace"
    and "readFailure r = None"
    and "start = (case zsets r (name mfs) member of
                    None \<Rightarrow> map defaultScore (mfields mfs)
                  | Some cur \<Rightarrow> getFieldScores mfs (Some (toInt64 cur)))"
    and "v = defaultScore f + toInt64 a * multiplier f"
  shows "IncreaseScore mfs r [(n, a)] member =
           (if v < 0 \<or> maxAbsolute f < v then (Inl (ScoreOutOfRange v (Name f)), r)
            else storeScores mfs r (start[position f := v]) member)
     \<and> (0 \<le> v \<and> v \<le> maxAbsolute f \<and> writeFailure r = None \<longrightarrow>
          \<not> isl (scoresToZScore mfs (start[position f := v]))
        \<and> fst (IncreaseScore mfs r [(n, a)] member) = scoresToZScore mfs (start[position f := v])
        \<and> zsets (snd (IncreaseScore mfs r [(n, a)] member)) (name mfs) member =
            Some (fromInt64 (Int64 (projr (scoresToZScore mfs (start[position f := v]))))))
     \<and> (distinct (map fst ups) \<and> (n, a) \<in> set ups
          \<and> fst (IncreaseScore mfs r ups member) = Inr z \<longrightarrow>
          \<not> isl (updateScores mfs start ups)
        \<and> projr (updateScores mfs start ups) ! position f = v
        \<and> scoresToZScore mfs (projr (updateScores mfs start ups)) = Inr z)
     \<and> ((\<forall>g \<in> set (opt_Fields opts). MaxValue g \<noteq> PosInf)
          \<and> sum_list (map (\<lambda>g. BitCount (MaxValue g)) (tl (opt_Fields opts))) < 2 ^ 64
          \<and> 0 \<le> v \<and> v \<le> maxAbsolute f \<longrightarrow>
          extractFieldScore f (Some (projr (scoresToZScore mfs (start[position f := v])))) = v
        \<and> getFieldScores mfs (Some (projr (scoresToZScore mfs (start[position f := v])))) =
            start[position f := v])
     \<and> (- (2 ^ 63) \<le> k \<and> k < 2 ^ 63 \<longrightarrow> toInt64 (Finite (of_int k)) = k)"
proof -
  have l: "length start = length (mfields mfs)" unfolding assms(5) by (rule start_length)
  from GetFieldByName_SomeD [OF assms(2)] New_member_position [OF assms(1)] l
  have p: "position f < length start" by simp
  have t: "UpdateType f \<noteq> Incremental" "UpdateType f = Incremental \<or> UpdateType f = Replace"
    using assms(3) by (simp_all add: Incremental_def Replace_def)
  note i = IncreaseScore_start [OF assms(4), of mfs _ member, folded assms(5)]
  have one: "updateOne mfs start (n, a) =
      (if v < 0 \<or> maxAbsolute f < v then Inl (ScoreOutOfRange v (Name f))
       else Inr (start[position f := v]))"
    using updateOne_known [OF assms(2) p t(2), of a] t(1) by (simp add: assms(6) Let_def)
  have A: "IncreaseScore mfs r [(n, a)] member =
           (if v < 0 \<or> maxAbsolute f < v then (Inl (ScoreOutOfRange v (Name f)), r)
            else storeScores mfs r (start[position f := v]) member)"
    by (simp add: i one)
  have B: "\<not> isl (scoresToZScore mfs (start[position f := v]))
        \<and> fst (IncreaseScore mfs r [(n, a)] member) = scoresToZScore mfs (start[position f := v])
        \<and> zsets (snd (IncreaseScore mfs r [(n, a)] member)) (name mfs) member =
            Some (fromInt64 (Int64 (projr (scoresToZScore mfs (start[position f := v])))))"
    if "0 \<le> v \<and> v \<le> maxAbsolute f \<and> writeFailure r = None"
  proof -
    obtain z' where z': "scoresToZScore mfs (start[position f := v]) = Inr z'"
      using scoresLoop_ok [of "start[position f := v]" "mfields mfs" 0] l
      by (auto simp: scoresToZScore_def)
    from that have w: "writeFailure r = None" by simp
    from that A have "IncreaseScore mfs r [(n, a)] member =
        storeScores mfs r (start[position f := v]) member" by simp
    with storeScores_written [OF w z', of member] z' show ?thesis by simp
  qed
  have C: "\<not> isl (updateScores mfs start ups)
        \<and> projr (updateScores mfs start ups) ! position f = v
        \<and> scoresToZScore mfs (projr (updateScores mfs start ups)) = Inr z"
    if h: "distinct (map fst ups) \<and> (n, a) \<in> set ups
          \<and> fst (IncreaseScore mfs r ups member) = Inr z"
  proof -
    from h i [of ups] obtain sc where u: "updateScores mfs start ups = Inr sc"
      "fst (storeScores mfs r sc member) = Inr z"
      by (cases "updateScores mfs start ups") auto
    from updateScores_replace [OF assms(1-3) _ _ l u(1), of a] h
    have "sc ! position f = v" by (simp add: assms(6))
    with u storeScores_InrD [OF u(2)] show ?thesis by simp
  qed
  have D: "extractFieldScore f (Some (projr (scoresToZScore mfs (start[position f := v])))) = v
        \<and> getFieldScores mfs (Some (projr (scoresToZScore mfs (start[position f := v])))) =
            start[position f := v]"
    if h: "(\<forall>g \<in> set (opt_Fields opts). MaxValue g \<noteq> PosInf)
          \<and> sum_list (map (\<lambda>g. BitCount (MaxValue g)) (tl (opt_Fields opts))) < 2 ^ 64
          \<and> 0 \<le> v \<and> v \<le> maxAbsolute f"
  proof -
    from h have h': "\<forall>g \<in> set (opt_Fields opts). MaxValue g \<noteq> PosInf"
      "sum_list (map (\<lambda>g. BitCount (MaxValue g)) (tl (opt_Fields opts))) < 2 ^ 64"
      "0 \<le> v" "v \<le> maxAbsolute f" by simp_all
    from updated_round_trip [OF assms(1,2) h'(1,2) assms(5) h'(3,4)]
    show ?thesis by auto
  qed
  from A B C D toInt64_of_int [of k] show ?thesis by blast
qed

lemma New_ranking:
  "New ranking_opts =
     Inr \<lparr> mfields =
             [\<lparr> Name = ''rank'', Sort = - 1, MaxValue = Finite 100, UpdateType = 2,
                 bits = 7, position = 0, shiftValue = 14, fmask = 2080768, isMain = False,
                 maxAbsolute = 127, multiplier = - 1 \<rparr>,
              \<lparr> Name = ''deaths'', Sort = 1, MaxValue = Finite 10000, UpdateType = 1,
                 bits = 14, position = 1, shiftValue = 0, fmask = 16383, isMain = False,
                 maxAbsolute = 16383, multiplier = 1 \<rparr>],
           name = ''ranking'', client = (), defaultZScore = 2080768 \<rparr>"
  by (simp add: New_def ranking_opts_def rank_field_def deaths_field_def eval_defs
      scoresToZScore_def defaultScore_def)

text \<open>
  Rank is descending with \<open>maxAbsolute = 127\<close>: the amount 5 gives the packed value 122,
  from the default 127 of an absent member and from the stored packed rank 100 alike.
\<close>

theorem C8_replace_witness:
  "fst (IncreaseScore (projr (New ranking_opts)) empty_redis [(''rank'', Finite 5)] ''player1'')
       = Inr 1998848
   \<and> getFieldScores (projr (New ranking_opts)) (Some 1998848) = [127 - 5, 0]
   \<and> getFieldScores (projr (New ranking_opts)) (Some (toInt64 (Finite 1638403))) = [100, 3]
   \<and> fst (IncreaseScore (projr (New ranking_opts)) ranked_redis [(''rank'', Finite 5)] ''player1'')
       = Inr 1998851
   \<and> getFieldScores (projr (New ranking_opts)) (Some 1998851) = [127 - 5, 3]
   \<and> zsets (snd (IncreaseScore (projr (New ranking_opts)) ranked_redis
                    [(''rank'', Finite 5)] ''player1'')) ''ranking'' ''player1'' =
       Some (Finite 1998851)"
proof -
  let ?mfs = "projr (New ranking_opts)"
  let ?f = "mfields ?mfs ! 0"
  have n: "New ranking_opts = Inr ?mfs" by (simp add: New_ranking)
  have g: "GetFieldByName ?mfs ''rank'' = Some ?f" by (simp add: New_ranking GetFieldByName_def)
  have t: "UpdateType ?f = Replace" by (simp add: New_ranking Replace_def)
  have v: "defaultScore ?f + toInt64 (Finite 5) * multiplier ?f = 122" "maxAbsolute ?f = 127"
    "position ?f = 0" "name ?mfs = ''ranking''"
    by (simp_all add: New_ranking defaultScore_def eval_defs)
  have r1: "readFailure empty_redis = None" "writeFailure empty_redis = None"
    "(case zsets empty_redis (name ?mfs) ''player1'' of
        None \<Rightarrow> map defaultScore (mfields ?mfs)
      | Some cur \<Rightarrow> getFieldScores ?mfs (Some (toInt64 cur))) = [127, 0]"
    by (simp_all add: empty_redis_def New_ranking defaultScore_def Descending_def)
  have r2: "readFailure ranked_redis = None" "writeFailure ranked_redis = None"
    "(case zsets ranked_redis (name ?mfs) ''player1'' of
        None \<Rightarrow> map defaultScore (mfields ?mfs)
      | Some cur \<Rightarrow> getFieldScores ?mfs (Some (toInt64 cur))) = [100, 3]"
    by (simp_all add: ranked_redis_def New_ranking run_defs eval_defs)
  have p: "scoresToZScore ?mfs [122, 0] = Inr 1998848" "scoresToZScore ?mfs [122, 3] = Inr 1998851"
    "fromInt64 (Int64 1998851) = Finite 1998851"
    by (simp_all add: New_ranking run_defs eval_defs)
  have e: "getFieldScores ?mfs (Some 1998848) = [127 - 5, 0]"
    "getFieldScores ?mfs (Some (toInt64 (Finite 1638403))) = [100, 3]"
    "getFieldScores ?mfs (Some 1998851) = [127 - 5, 3]"
    by (simp_all add: New_ranking run_defs eval_defs)
  note t1 = C8_replace_relative_to_default [OF n g t r1(1) r1(3) [symmetric] v(1) [symmetric],
      THEN conjunct2, THEN conjunct1]
  note t2 = C8_replace_relative_to_default [OF n g t r2(1) r2(3) [symmetric] v(1) [symmetric],
      THEN conjunct2, THEN conjunct1]
  from t1 v r1 p
  have a: "fst (IncreaseScore ?mfs empty_redis [(''rank'', Finite 5)] ''player1'') = Inr 1998848"
    by simp
  from t2 v r2 p
  have b: "fst (IncreaseScore ?mfs ranked_redis [(''rank'', Finite 5)] ''player1'') = Inr 1998851"
    "zsets (snd (IncreaseScore ?mfs ranked_redis [(''rank'', Finite 5)] ''player1''))
       ''ranking'' ''player1'' = Some (Finite 1998851)"
    by simp_all
  from a b e show ?thesis by blast
qed

end
